theory Spec2Isabelle
  imports Main "HOL-Library.Char_ord" "HOL-Library.List_Lexorder"
begin

section \<open>Go values used by the compilation database\<close>

text \<open>
  A Go \<open>string\<close> and a \<open>[]byte\<close> are sequences of bytes; \<^typ>\<open>char\<close> is a byte, so both
  are \<^typ>\<open>string\<close>. A slice is either \<open>nil\<close> or a sequence of elements: the two are
  told apart by \<open>encoding/json\<close> (\<open>null\<close> against \<open>[]\<close>), and \<open>NewDatabase\<close> takes care to
  start from \<open>[]Command{}\<close> and not from \<open>nil\<close>.
\<close>

type_synonym bytes = string

datatype 'a slice = NilSlice | Slice "'a list"

fun elems :: "'a slice \<Rightarrow> 'a list" where
  "elems NilSlice = []"
| "elems (Slice xs) = xs"

definition len :: "'a slice \<Rightarrow> nat" where
  "len s = length (elems s)"

definition append_slice :: "'a slice \<Rightarrow> 'a \<Rightarrow> 'a slice" where
  \<comment> \<open>\<open>append(s, x)\<close>: the result is never \<open>nil\<close>.\<close>
  "append_slice s x = Slice (elems s @ [x])"

text \<open>
  \<open>type Command struct\<close> and \<open>type Database struct\<close> of \<open>database.go\<close>. A \<open>*paths.Path\<close> is
  \<open>nil\<close> (\<open>None\<close>, which is what \<open>paths.New("")\<close> returns) or points to a path.
\<close>

type_synonym Path = "string option"

record Command =
  Directory :: string
  Command :: string
  Arguments :: "string slice"
  File :: string

record Database =
  Contents :: "Command slice"
  File :: Path

text \<open>
  The part of \<open>paths.Process\<close> that \<open>Add\<close> reads: \<open>GetDir()\<close> and \<open>GetArgs()\<close>. A
  \<open>*paths.Process\<close> is \<open>nil\<close> or points to one.
\<close>

record Process =
  GetDir :: string
  GetArgs :: "string slice"

text \<open>
  Go errors. An error of the operating system is a \<open>*fs.PathError\<close> (operation, path and
  cause) or an \<open>*os.SyscallError\<close> (system call and cause), and \<open>Error\<close> is its \<open>Error()\<close>
  method. \<open>json.Marshal\<close> fails with an \<open>UnsupportedTypeError\<close>. \<open>LoadDatabase\<close> returns the
  error of \<open>ReadFile\<close> or the error of \<open>json.Unmarshal\<close>, a \<open>SyntaxError\<close> or an
  \<open>UnmarshalTypeError\<close> (with the kind of JSON value that did not fit); the code never
  prints these two.
\<close>

datatype os_error =
    PathError string string string
  | SyscallError string string

fun Error :: "os_error \<Rightarrow> string" where
  "Error (PathError opn p cause) = opn @ '' '' @ p @ '': '' @ cause"
| "Error (SyscallError call cause) = call @ '': '' @ cause"

datatype marshal_error = UnsupportedTypeError string

fun marshal_Error :: "marshal_error \<Rightarrow> string" where
  "marshal_Error (UnsupportedTypeError t) = ''json: unsupported type: '' @ t"

datatype error =
    OSError os_error
  | SyntaxError
  | UnmarshalTypeError string



section \<open>The world outside the program\<close>

text \<open>
  The file system, the working directory of the process, the standard output and the
  \<open>Database\<close> objects reached through \<open>*Database\<close> pointers. A pointer is an index into
  \<open>heap\<close>; an index outside it stands for \<open>nil\<close>, and dereferencing it panics.

  \<open>fault\<close> is what the operating system will do to the next operation on a path, with the
  error it will return. \<open>os.WriteFile\<close> opens the file with \<open>O_WRONLY|O_CREATE|O_TRUNC\<close> and
  then writes: its documentation says that a failure mid-operation can leave the file
  partially written. \<open>WriteFault n e\<close> is such a failure after \<open>n\<close> bytes; \<open>OpenFault e\<close> is a
  failure to open the file for writing, \<open>ReadFault e\<close> a failure to read it. \<open>getwd_error\<close>
  is the error of \<open>os.Getwd\<close>, if it fails: the process has a working directory also when
  \<open>os.Getwd\<close> cannot tell which (the directory was removed, say).
\<close>

datatype io_fault = NoFault | ReadFault os_error | OpenFault os_error | WriteFault nat os_error

record world =
  files :: "string \<Rightarrow> bytes option"
  fault :: "string \<Rightarrow> io_fault"
  cwd :: string
  getwd_error :: "os_error option"
  stdout :: "string list"
  heap :: "Database list"

datatype 'a outcome = Returns 'a | Panics

definition ReadFile :: "string \<Rightarrow> world \<Rightarrow> os_error + bytes" where
  "ReadFile p w =
     (case files w p of
        None \<Rightarrow> Inl (PathError ''open'' p ''no such file or directory'')
      | Some b \<Rightarrow> (case fault w p of ReadFault e \<Rightarrow> Inl e | _ \<Rightarrow> Inr b))"

definition WriteFile :: "string \<Rightarrow> bytes \<Rightarrow> world \<Rightarrow> os_error option \<times> world" where
  "WriteFile p data w =
     (case fault w p of
        OpenFault e \<Rightarrow> (Some e, w)
      | WriteFault n e \<Rightarrow> (Some e, w\<lparr>files := (files w)(p \<mapsto> take n data)\<rparr>)
      | _ \<Rightarrow> (None, w\<lparr>files := (files w)(p \<mapsto> data)\<rparr>))"

definition Getwd :: "world \<Rightarrow> string \<times> os_error option" where
  \<comment> \<open>\<open>os.Getwd\<close>: the directory and no error, or the empty string and the error.\<close>
  "Getwd w = (case getwd_error w of Some e \<Rightarrow> ([], Some e) | None \<Rightarrow> (cwd w, None))"

definition Println :: "string \<Rightarrow> world \<Rightarrow> world" where
  "Println s w = w\<lparr>stdout := stdout w @ [s]\<rparr>"

fun Sprintf :: "string \<Rightarrow> string \<Rightarrow> string" where
  "Sprintf (c # d # cs) a =
     (if c = CHR ''%'' \<and> d = CHR ''s'' then a @ Sprintf cs a else c # Sprintf (d # cs) a)"
| "Sprintf cs a = cs"

definition tr :: "string \<Rightarrow> string \<Rightarrow> string" where
  \<comment> \<open>\<open>i18n.Tr\<close> with no translation catalogue: the format with \<open>%s\<close> filled in with the
      \<open>Error()\<close> of the error.\<close>
  "tr format msg = Sprintf format msg"

definition deref :: "world \<Rightarrow> nat \<Rightarrow> Database option" where
  "deref w p = (if p < length (heap w) then Some (heap w ! p) else None)"

definition store :: "nat \<Rightarrow> Database \<Rightarrow> world \<Rightarrow> world" where
  "store p d w = w\<lparr>heap := (heap w)[p := d]\<rparr>"

definition alloc :: "Database \<Rightarrow> world \<Rightarrow> nat \<times> world" where
  "alloc d w = (length (heap w), w\<lparr>heap := heap w @ [d]\<rparr>)"

section \<open>UTF-8, as package \<open>unicode/utf8\<close> decodes and encodes it\<close>

text \<open>A rune is a natural number here: none of the runes computed below is negative.\<close>

definition RuneError :: nat where
  "RuneError = 0xFFFD"

definition byte :: "char \<Rightarrow> nat" where
  "byte c = of_char c"

fun DecodeRune :: "bytes \<Rightarrow> nat \<times> nat" where
  "DecodeRune [] = (RuneError, 0)"
| "DecodeRune (c0 # s) =
     (let s0 = byte c0 in
      if s0 < 0x80 then (s0, 1)
      else if s0 < 0xC2 \<or> 0xF4 < s0 then (RuneError, 1)
      else
        let sz = (if s0 < 0xE0 then 2 else if s0 < 0xF0 then 3 else 4 :: nat);
            lo = (if s0 = 0xE0 then 0xA0 else if s0 = 0xF0 then 0x90 else 0x80);
            hi = (if s0 = 0xED then 0x9F else if s0 = 0xF4 then 0x8F else 0xBF)
        in if Suc (length s) < sz then (RuneError, 1)
           else (case s of
              [] \<Rightarrow> (RuneError, 1)
            | c1 # t1 \<Rightarrow>
                let s1 = byte c1 in
                if s1 < lo \<or> hi < s1 then (RuneError, 1)
                else if sz \<le> 2 then ((s0 mod 32) * 64 + s1 mod 64, 2)
                else (case t1 of
                   [] \<Rightarrow> (RuneError, 1)
                 | c2 # t2 \<Rightarrow>
                     let s2 = byte c2 in
                     if s2 < 0x80 \<or> 0xBF < s2 then (RuneError, 1)
                     else if sz \<le> 3 then ((s0 mod 16) * 4096 + (s1 mod 64) * 64 + s2 mod 64, 3)
                     else (case t2 of
                        [] \<Rightarrow> (RuneError, 1)
                      | c3 # t3 \<Rightarrow>
                          let s3 = byte c3 in
                          if s3 < 0x80 \<or> 0xBF < s3 then (RuneError, 1)
                          else ((s0 mod 8) * 262144 + (s1 mod 64) * 4096
                                  + (s2 mod 64) * 64 + s3 mod 64, 4)))))"

definition EncodeRune :: "nat \<Rightarrow> bytes" where
  "EncodeRune r =
     (if r \<le> 0x7F then [char_of r]
      else if r \<le> 0x7FF then [char_of (0xC0 + r div 64), char_of (0x80 + r mod 64)]
      else if 0x10FFFF < r \<or> (0xD800 \<le> r \<and> r \<le> 0xDFFF)
        then [CHR 0xEF, CHR 0xBF, CHR 0xBD]
      else if r \<le> 0xFFFF
        then [char_of (0xE0 + r div 4096), char_of (0x80 + (r div 64) mod 64),
              char_of (0x80 + r mod 64)]
      else [char_of (0xF0 + r div 262144), char_of (0x80 + (r div 4096) mod 64),
            char_of (0x80 + (r div 64) mod 64), char_of (0x80 + r mod 64)])"

fun ValidString :: "bytes \<Rightarrow> bool" where
  "ValidString [] = True"
| "ValidString (c # cs) =
     (case DecodeRune (c # cs) of
        (r, n) \<Rightarrow> \<not> (r = RuneError \<and> n = 1) \<and> ValidString (drop (n - 1) cs))"

section \<open>Package \<open>encoding/json\<close>: encoding\<close>

text \<open>
  \<open>json.MarshalIndent(db.Contents, "", " ")\<close>. The value is turned into a JSON tree as the
  struct tags of \<open>Command\<close> say (\<open>directory\<close>, \<open>command,omitempty\<close>, \<open>arguments,omitempty\<close>,
  \<open>file\<close>, in the order of the fields; \<open>omitempty\<close> leaves out an empty string and a slice
  of length 0), and the tree is written with every element on a line of its own, indented
  by one space for each level of nesting. A \<open>nil\<close> slice is written \<open>null\<close>. \<open>JString\<close> holds
  the bytes of the Go string; they are escaped when written.
\<close>

datatype json =
    JNull
  | JBool bool
  | JNumber string
  | JString string
  | JArray "json list"
  | JObject "(string \<times> json) list"

definition hex :: "nat \<Rightarrow> char" where
  "hex n = ''0123456789abcdef'' ! n"

definition htmlSafe :: "char \<Rightarrow> bool" where
  \<comment> \<open>\<open>htmlSafeSet\<close>: the ASCII bytes written as they are when \<open>escapeHTML\<close> is set.\<close>
  "htmlSafe b = (0x20 \<le> byte b \<and> byte b < 0x80 \<and> b \<noteq> CHR 0x22 \<and> b \<noteq> CHR 0x5C
                  \<and> b \<noteq> CHR ''<'' \<and> b \<noteq> CHR ''>'' \<and> b \<noteq> CHR ''&'')"

definition escape_byte :: "char \<Rightarrow> string" where
  "escape_byte b =
     (if b = CHR 0x5C \<or> b = CHR 0x22 then [CHR 0x5C, b]
      else if b = CHR 0x08 then [CHR 0x5C, CHR ''b'']
      else if b = CHR 0x0C then [CHR 0x5C, CHR ''f'']
      else if b = CHR 0x0A then [CHR 0x5C, CHR ''n'']
      else if b = CHR 0x0D then [CHR 0x5C, CHR ''r'']
      else if b = CHR 0x09 then [CHR 0x5C, CHR ''t'']
      else [CHR 0x5C, CHR ''u'', CHR ''0'', CHR ''0'', hex (byte b div 16), hex (byte b mod 16)])"

fun escape :: "bytes \<Rightarrow> string" where
  "escape [] = []"
| "escape (b # bs) =
     (if byte b < 0x80 then
        (if htmlSafe b then b # escape bs else escape_byte b @ escape bs)
      else
        (case DecodeRune (take 4 (b # bs)) of
           (c, n) \<Rightarrow>
             if c = RuneError \<and> n = 1
               then [CHR 0x5C, CHR ''u'', CHR ''f'', CHR ''f'', CHR ''f'', CHR ''d''] @ escape bs
             else if c = 0x2028 \<or> c = 0x2029
               then [CHR 0x5C, CHR ''u'', CHR ''2'', CHR ''0'', CHR ''2'', hex (c mod 16)]
                      @ escape (drop (n - 1) bs)
             else b # take (n - 1) bs @ escape (drop (n - 1) bs)))"

definition appendString :: "bytes \<Rightarrow> string" where
  "appendString src = [CHR 0x22] @ escape src @ [CHR 0x22]"

definition newline :: "nat \<Rightarrow> string" where
  \<comment> \<open>\<open>appendNewline\<close> with prefix \<open>""\<close> and indent \<open>" "\<close>.\<close>
  "newline depth = CHR 0x0A # replicate depth CHR '' ''"

fun join :: "'a list \<Rightarrow> 'a list list \<Rightarrow> 'a list" where
  "join sep [] = []"
| "join sep [x] = x"
| "join sep (x # y # ys) = x @ sep @ join sep (y # ys)"

fun render :: "nat \<Rightarrow> json \<Rightarrow> string" where
  "render d JNull = ''null''"
| "render d (JBool b) = (if b then ''true'' else ''false'')"
| "render d (JNumber n) = n"
| "render d (JString s) = appendString s"
| "render d (JArray js) =
     (if js = [] then ''[]''
      else ''['' @ newline (Suc d) @ join ('','' @ newline (Suc d)) (map (render (Suc d)) js)
             @ newline d @ '']'')"
| "render d (JObject ms) =
     (if ms = [] then ''{}''
      else ''{'' @ newline (Suc d)
             @ join ('','' @ newline (Suc d))
                 (map (\<lambda>m. appendString (fst m) @ '': '' @ render (Suc d) (snd m)) ms)
             @ newline d @ ''}'')"

definition json_of_Command :: "Command \<Rightarrow> json" where
  "json_of_Command c =
     JObject
       ([(''directory'', JString (Directory c))]
        @ (if Command c = [] then [] else [(''command'', JString (Command c))])
        @ (if len (Arguments c) = 0 then []
           else [(''arguments'', JArray (map JString (elems (Arguments c))))])
        @ [(''file'', JString (Command.File c))])"

fun json_of_Contents :: "Command slice \<Rightarrow> json" where
  "json_of_Contents NilSlice = JNull"
| "json_of_Contents (Slice cs) = JArray (map json_of_Command cs)"

definition MarshalIndent :: "Command slice \<Rightarrow> marshal_error + bytes" where
  \<comment> \<open>No value of type \<open>[]Command\<close> makes \<open>json.Marshal\<close> fail.\<close>
  "MarshalIndent v = Inr (render 0 (json_of_Contents v))"

section \<open>Package \<open>encoding/json\<close>: decoding\<close>

text \<open>
  \<open>json.Unmarshal\<close> first checks that the whole input is one JSON value (\<open>checkValid\<close>) and
  then decodes it. Here the input is cut into tokens, the tokens are assembled into a tree
  by the scanner's state machine, and the tree is decoded into the \<open>[]Command\<close>.
\<close>

datatype token =
    LBrace | RBrace | LBrack | RBrack | Colon | Comma
  | TString string | TNumber string | TTrue | TFalse | TNull

definition isSpace :: "char \<Rightarrow> bool" where
  "isSpace c = (c = CHR '' '' \<or> c = CHR 0x09 \<or> c = CHR 0x0D \<or> c = CHR 0x0A)"

definition isDigit :: "char \<Rightarrow> bool" where
  "isDigit c = (0x30 \<le> byte c \<and> byte c \<le> 0x39)"

definition hexval :: "char \<Rightarrow> nat option" where
  "hexval c =
     (let b = byte c in
      if 0x30 \<le> b \<and> b \<le> 0x39 then Some (b - 0x30)
      else if 0x61 \<le> b \<and> b \<le> 0x66 then Some (b - 0x61 + 10)
      else if 0x41 \<le> b \<and> b \<le> 0x46 then Some (b - 0x41 + 10)
      else None)"

fun getu4 :: "string \<Rightarrow> nat option" where
  \<comment> \<open>the four hexadecimal digits that follow \<open>\u\<close>\<close>
  "getu4 (a # b # c # d # s) =
     (case (hexval a, hexval b, hexval c, hexval d) of
        (Some x, Some y, Some z, Some u) \<Rightarrow> Some (x * 4096 + y * 256 + z * 16 + u)
      | _ \<Rightarrow> None)"
| "getu4 s = None"

definition low_surrogate :: "string \<Rightarrow> nat option" where
  \<comment> \<open>\<open>getu4\<close> of a following \<open>\uXXXX\<close>, when it is a low surrogate\<close>
  "low_surrogate s =
     (case s of
        e # u # t \<Rightarrow>
          if e = CHR 0x5C \<and> u = CHR ''u'' then
            (case getu4 t of
               Some r2 \<Rightarrow> if 0xDC00 \<le> r2 \<and> r2 < 0xE000 then Some r2 else None
             | None \<Rightarrow> None)
          else None
      | _ \<Rightarrow> None)"

definition simple_escape :: "char \<Rightarrow> char option" where
  "simple_escape e =
     (if e = CHR 0x22 \<or> e = CHR 0x5C \<or> e = CHR ''/'' then Some e
      else if e = CHR ''b'' then Some (CHR 0x08)
      else if e = CHR ''f'' then Some (CHR 0x0C)
      else if e = CHR ''n'' then Some (CHR 0x0A)
      else if e = CHR ''r'' then Some (CHR 0x0D)
      else if e = CHR ''t'' then Some (CHR 0x09)
      else None)"

definition emit :: "string \<Rightarrow> (string \<times> string) option \<Rightarrow> (string \<times> string) option" where
  "emit bs r = map_option (\<lambda>(s, rest). (bs @ s, rest)) r"

text \<open>
  The bytes of a string literal after its opening quote: the scanner's checks and
  \<open>unquoteBytes\<close> together. The result is the unquoted string and the input that follows
  the closing quote.
\<close>

fun lex_string :: "string \<Rightarrow> (string \<times> string) option" where
  "lex_string [] = None"
| "lex_string (c # cs) =
     (if c = CHR 0x22 then Some ([], cs)
      else if c = CHR 0x5C then
        (case cs of
           [] \<Rightarrow> None
         | e # cs' \<Rightarrow>
             if e = CHR ''u'' then
               (case getu4 cs' of
                  None \<Rightarrow> None
                | Some rr \<Rightarrow>
                    if 0xD800 \<le> rr \<and> rr < 0xE000 then
                      (if rr < 0xDC00 then
                         (case low_surrogate (drop 4 cs') of
                            Some rr1 \<Rightarrow>
                              emit (EncodeRune ((rr - 0xD800) * 1024 + (rr1 - 0xDC00) + 0x10000))
                                (lex_string (drop 10 cs'))
                          | None \<Rightarrow> emit (EncodeRune RuneError) (lex_string (drop 4 cs')))
                       else emit (EncodeRune RuneError) (lex_string (drop 4 cs')))
                    else emit (EncodeRune rr) (lex_string (drop 4 cs')))
             else
               (case simple_escape e of
                  None \<Rightarrow> None
                | Some b \<Rightarrow> emit [b] (lex_string cs')))
      else if byte c < 0x20 then None
      else if byte c < 0x80 then emit [c] (lex_string cs)
      else
        (case DecodeRune (c # cs) of
           (rr, n) \<Rightarrow> emit (EncodeRune rr) (lex_string (drop (n - 1) cs))))"

definition digits :: "string \<Rightarrow> (string \<times> string) option" where
  \<comment> \<open>one or more digits\<close>
  "digits s = (if takeWhile isDigit s = [] then None
               else Some (takeWhile isDigit s, dropWhile isDigit s))"

definition lex_int :: "string \<Rightarrow> (string \<times> string) option" where
  "lex_int s =
     (case s of
        [] \<Rightarrow> None
      | c # t \<Rightarrow>
          if c = CHR ''0'' then Some ([c], t)
          else if isDigit c then Some (c # takeWhile isDigit t, dropWhile isDigit t)
          else None)"

definition lex_frac :: "string \<Rightarrow> (string \<times> string) option" where
  "lex_frac s =
     (case s of
        [] \<Rightarrow> Some ([], s)
      | c # t \<Rightarrow>
          if c = CHR ''.'' then emit [c] (digits t) else Some ([], s))"

definition lex_exp :: "string \<Rightarrow> (string \<times> string) option" where
  "lex_exp s =
     (case s of
        [] \<Rightarrow> Some ([], s)
      | c # t \<Rightarrow>
          if c = CHR ''e'' \<or> c = CHR ''E'' then
            (case t of
               [] \<Rightarrow> None
             | g # u \<Rightarrow>
                 if g = CHR ''+'' \<or> g = CHR ''-'' then emit [c, g] (digits u)
                 else emit [c] (digits t))
          else Some ([], s))"

definition lex_number :: "string \<Rightarrow> (string \<times> string) option" where
  "lex_number s =
     (case s of
        [] \<Rightarrow> None
      | c # t \<Rightarrow>
          (case (if c = CHR ''-'' then emit [c] (lex_int t) else lex_int s) of
             None \<Rightarrow> None
           | Some (i, r1) \<Rightarrow>
               (case lex_frac r1 of
                  None \<Rightarrow> None
                | Some (f, r2) \<Rightarrow>
                    (case lex_exp r2 of
                       None \<Rightarrow> None
                     | Some (e, r3) \<Rightarrow> Some (i @ f @ e, r3)))))"

definition lex_literal :: "string \<Rightarrow> (token \<times> string) option" where
  "lex_literal s =
     (if take 4 s = ''true'' then Some (TTrue, drop 4 s)
      else if take 5 s = ''false'' then Some (TFalse, drop 5 s)
      else if take 4 s = ''null'' then Some (TNull, drop 4 s)
      else None)"

definition lex_token :: "char \<Rightarrow> string \<Rightarrow> (token \<times> string) option" where
  \<comment> \<open>the token that starts with the byte \<open>c\<close>, which is not white space, and what follows it\<close>
  "lex_token c cs =
     (if c = CHR ''{'' then Some (LBrace, cs)
      else if c = CHR ''}'' then Some (RBrace, cs)
      else if c = CHR ''['' then Some (LBrack, cs)
      else if c = CHR '']'' then Some (RBrack, cs)
      else if c = CHR '':'' then Some (Colon, cs)
      else if c = CHR '','' then Some (Comma, cs)
      else if c = CHR 0x22 then map_option (\<lambda>(s, rest). (TString s, rest)) (lex_string cs)
      else if c = CHR ''-'' \<or> isDigit c
        then map_option (\<lambda>(s, rest). (TNumber s, rest)) (lex_number (c # cs))
      else lex_literal (c # cs))"

text \<open>Every token takes at least one byte, so cutting the input into tokens terminates.\<close>

lemma emit_Some: "emit bs r = Some (s, rest) \<Longrightarrow> \<exists>s'. r = Some (s', rest)"
  by (cases r) (auto simp: emit_def)

lemma lex_string_length: "lex_string s = Some (r, rest) \<Longrightarrow> length rest \<le> length s"
proof (induction "length s" arbitrary: s r rule: less_induct)
  case less
  have tail: "length rest \<le> length t"
    if h1: "emit bs (lex_string (drop k t)) = Some (r, rest)" and h2: "length t < length s"
    for bs k t
  proof -
    obtain s' where s': "lex_string (drop k t) = Some (s', rest)"
      using h1 emit_Some by blast
    have "length (drop k t) < length s"
      using h2 by simp
    from less.hyps [OF this s'] show ?thesis
      by simp
  qed
  have tail0: "length rest \<le> length t"
    if h1: "emit bs (lex_string t) = Some (r, rest)" and h2: "length t < length s"
    for bs t
    using tail [of bs 0 t] h1 h2 by simp
  show ?case
  proof (cases s)
    case Nil
    with less.prems show ?thesis by simp
  next
    case (Cons c cs)
    show ?thesis
    proof (cases "c = CHR 0x22 \<or> c = CHR 0x5C")
      case True
      from less.prems Cons True show ?thesis
        by (auto split: if_splits option.splits list.splits dest!: tail tail0)
    next
      case False
      from less.prems Cons False show ?thesis
        by (auto simp del: DecodeRune.simps split: if_splits prod.splits dest!: tail tail0)
    qed
  qed
qed

lemma digits_length: "digits s = Some (r, rest) \<Longrightarrow> length rest \<le> length s"
  by (auto simp: digits_def length_dropWhile_le split: if_splits)

lemma lex_int_length: "lex_int s = Some (r, rest) \<Longrightarrow> length rest < length s"
  by (auto simp: lex_int_def length_dropWhile_le less_Suc_eq_le split: if_splits list.splits)

lemma lex_frac_length: "lex_frac s = Some (r, rest) \<Longrightarrow> length rest \<le> length s"
  by (auto simp: lex_frac_def split: if_splits list.splits dest!: emit_Some digits_length)

lemma lex_exp_length: "lex_exp s = Some (r, rest) \<Longrightarrow> length rest \<le> length s"
  by (auto simp: lex_exp_def split: if_splits list.splits dest!: emit_Some digits_length)

lemma lex_number_length: "lex_number s = Some (r, rest) \<Longrightarrow> length rest < length s"
  by (fastforce simp: lex_number_def split: if_splits list.splits option.splits
      dest!: emit_Some lex_int_length lex_frac_length lex_exp_length)

lemma lex_literal_length: "lex_literal s = Some (t, rest) \<Longrightarrow> length rest < length s"
proof -
  assume a: "lex_literal s = Some (t, rest)"
  have "s \<noteq> []"
    using a by (auto simp: lex_literal_def)
  moreover have "rest = drop 4 s \<or> rest = drop 5 s"
    using a by (simp add: lex_literal_def split: if_splits)
  ultimately show ?thesis
    by (cases s) auto
qed

lemma lex_token_length:
  assumes "lex_token c cs = Some (t, rest)"
  shows "length rest \<le> length cs"
proof (cases "c = CHR ''{'' \<or> c = CHR ''}'' \<or> c = CHR ''['' \<or> c = CHR '']'' \<or> c = CHR '':'' \<or> c = CHR '',''")
  case True
  with assms have "rest = cs"
    unfolding lex_token_def by (simp split: if_split_asm)
  then show ?thesis by simp
next
  case False
  show ?thesis
  proof (cases "c = CHR 0x22")
    case True
    with assms False obtain s where "lex_string cs = Some (s, rest)"
      unfolding lex_token_def by (cases "lex_string cs") auto
    then show ?thesis by (rule lex_string_length)
  next
    case nq: False
    show ?thesis
    proof (cases "c = CHR ''-'' \<or> isDigit c")
      case True
      have "lex_token c cs = map_option (\<lambda>(s, rest). (TNumber s, rest)) (lex_number (c # cs))"
        using False nq True unfolding lex_token_def by simp
      with assms obtain s where "lex_number (c # cs) = Some (s, rest)"
        by (cases "lex_number (c # cs)") (simp, simp split: prod.splits)
      from lex_number_length [OF this] show ?thesis by simp
    next
      case nn: False
      with assms False nq have "lex_literal (c # cs) = Some (t, rest)"
        unfolding lex_token_def by simp
      from lex_literal_length [OF this] show ?thesis by simp
    qed
  qed
qed

function lex :: "string \<Rightarrow> token list option" where
  "lex [] = Some []"
| "lex (c # cs) =
     (if isSpace c then lex cs
      else (case lex_token c cs of
              None \<Rightarrow> None
            | Some (t, rest) \<Rightarrow> map_option ((#) t) (lex rest)))"
  by pat_completeness auto
termination
  by (relation "measure length") (auto dest: lex_token_length)

text \<open>
  The scanner's states and its stack of open arrays and objects (\<open>parseState\<close>), which here
  also hold the values read so far. At most \<open>maxNestingDepth\<close> arrays and objects may be
  open at once.
\<close>

datatype mode =
    BeginValue
  | BeginValueOrEmpty
  | BeginStringOrEmpty
  | BeginString
  | ExpectColon string
  | EndValue json

datatype frame =
    ArrF "json list"
  | ObjF "(string \<times> json) list"
  | ObjV "(string \<times> json) list" string

definition maxNestingDepth :: nat where
  "maxNestingDepth = 10000"

definition begin_value :: "frame list \<Rightarrow> token \<Rightarrow> (mode \<times> frame list) option" where
  "begin_value st t =
     (case t of
        TString s \<Rightarrow> Some (EndValue (JString s), st)
      | TNumber n \<Rightarrow> Some (EndValue (JNumber n), st)
      | TTrue \<Rightarrow> Some (EndValue (JBool True), st)
      | TFalse \<Rightarrow> Some (EndValue (JBool False), st)
      | TNull \<Rightarrow> Some (EndValue JNull, st)
      | LBrack \<Rightarrow>
          if length st < maxNestingDepth then Some (BeginValueOrEmpty, ArrF [] # st) else None
      | LBrace \<Rightarrow>
          if length st < maxNestingDepth then Some (BeginStringOrEmpty, ObjF [] # st) else None
      | _ \<Rightarrow> None)"

definition end_value :: "json \<Rightarrow> frame list \<Rightarrow> token \<Rightarrow> (mode \<times> frame list) option" where
  "end_value v st t =
     (case st of
        [] \<Rightarrow> None
      | ArrF acc # st' \<Rightarrow>
          (case t of
             Comma \<Rightarrow> Some (BeginValue, ArrF (v # acc) # st')
           | RBrack \<Rightarrow> Some (EndValue (JArray (rev (v # acc))), st')
           | _ \<Rightarrow> None)
      | ObjV acc k # st' \<Rightarrow>
          (case t of
             Comma \<Rightarrow> Some (BeginString, ObjF ((k, v) # acc) # st')
           | RBrace \<Rightarrow> Some (EndValue (JObject (rev ((k, v) # acc))), st')
           | _ \<Rightarrow> None)
      | ObjF acc # st' \<Rightarrow> None)"

definition step :: "mode \<Rightarrow> frame list \<Rightarrow> token \<Rightarrow> (mode \<times> frame list) option" where
  "step m st t =
     (case m of
        BeginValue \<Rightarrow> begin_value st t
      | BeginValueOrEmpty \<Rightarrow>
          (if t = RBrack then Some (EndValue (JArray []), tl st) else begin_value st t)
      | BeginStringOrEmpty \<Rightarrow>
          (case t of
             RBrace \<Rightarrow> Some (EndValue (JObject []), tl st)
           | TString k \<Rightarrow> Some (ExpectColon k, st)
           | _ \<Rightarrow> None)
      | BeginString \<Rightarrow>
          (case t of TString k \<Rightarrow> Some (ExpectColon k, st) | _ \<Rightarrow> None)
      | ExpectColon k \<Rightarrow>
          (if t = Colon then
             (case st of
                ObjF acc # st' \<Rightarrow> Some (BeginValue, ObjV acc k # st')
              | _ \<Rightarrow> None)
           else None)
      | EndValue v \<Rightarrow> end_value v st t)"

fun run :: "mode \<Rightarrow> frame list \<Rightarrow> token list \<Rightarrow> json option" where
  "run m st [] = (case m of EndValue v \<Rightarrow> (if st = [] then Some v else None) | _ \<Rightarrow> None)"
| "run m st (t # ts) =
     (case step m st t of None \<Rightarrow> None | Some (m', st') \<Rightarrow> run m' st' ts)"

definition parse_json :: "bytes \<Rightarrow> json option" where
  "parse_json data = (case lex data of None \<Rightarrow> None | Some ts \<Rightarrow> run BeginValue [] ts)"

text \<open>
  Decoding the tree into the Go value. A key selects the field whose name it equals, or
  else the field whose name it equals under case folding (\<open>foldName\<close>: ASCII letters, and
  the two runes that \<open>unicode.SimpleFold\<close> folds to ASCII letters, U+017F to \<open>S\<close> and U+212A
  to \<open>K\<close>); a key that selects no field is skipped with its value. \<open>null\<close> leaves a string
  and a struct as they are and sets a slice to \<open>nil\<close>. A value of the wrong kind leaves the
  target as it is and is recorded as an \<open>UnmarshalTypeError\<close>; decoding goes on, and the first
  error recorded is returned at the end (\<open>saveError\<close>).

  An array is decoded into a slice element by element, into the elements the slice already
  holds, then past its length into what its backing array holds there, then into zero
  values. The second and third component of the state of \<open>decode_member\<close> are the error
  saved so far and the strings that the backing array of \<open>Arguments\<close> holds past its length.
\<close>

definition foldRune :: "nat \<Rightarrow> nat" where
  "foldRune r = (if r = 0x17F then 0x53 else if r = 0x212A then 0x4B else r)"

fun foldName :: "string \<Rightarrow> string" where
  "foldName [] = []"
| "foldName (c # cs) =
     (if byte c < 0x80 then
        (if 0x61 \<le> byte c \<and> byte c \<le> 0x7A then char_of (byte c - 0x20) else c) # foldName cs
      else
        (case DecodeRune (c # cs) of
           (r, n) \<Rightarrow> EncodeRune (foldRune r) @ foldName (drop (n - 1) cs)))"

datatype field = FDirectory | FCommand | FArguments | FFile

definition field_name :: "field \<Rightarrow> string" where
  "field_name f =
     (case f of FDirectory \<Rightarrow> ''directory'' | FCommand \<Rightarrow> ''command''
      | FArguments \<Rightarrow> ''arguments'' | FFile \<Rightarrow> ''file'')"

definition find_field :: "string \<Rightarrow> field option" where
  "find_field key =
     (case filter (\<lambda>f. field_name f = key) [FDirectory, FCommand, FArguments, FFile] of
        f # fs \<Rightarrow> Some f
      | [] \<Rightarrow>
          (case filter (\<lambda>f. foldName (field_name f) = foldName key)
                  [FDirectory, FCommand, FArguments, FFile] of
             f # fs \<Rightarrow> Some f
           | [] \<Rightarrow> None))"

definition saveError :: "error option \<Rightarrow> error option \<Rightarrow> error option" where
  "saveError saved e = (case saved of None \<Rightarrow> e | Some x \<Rightarrow> Some x)"

definition kind_of :: "json \<Rightarrow> string" where
  "kind_of j =
     (case j of JNull \<Rightarrow> ''null'' | JBool b \<Rightarrow> ''bool'' | JNumber n \<Rightarrow> ''number''
      | JString s \<Rightarrow> ''string'' | JArray js \<Rightarrow> ''array'' | JObject ms \<Rightarrow> ''object'')"

definition decode_string :: "json \<Rightarrow> string \<Rightarrow> string \<times> error option" where
  "decode_string j cur =
     (case j of
        JString s \<Rightarrow> (s, None)
      | JNull \<Rightarrow> (cur, None)
      | _ \<Rightarrow> (cur, Some (UnmarshalTypeError (kind_of j))))"

fun decode_strings :: "json list \<Rightarrow> string list \<Rightarrow> string list \<times> error option" where
  "decode_strings [] old = ([], None)"
| "decode_strings (j # js) old =
     (case decode_string j (case old of [] \<Rightarrow> [] | x # xs \<Rightarrow> x) of
        (s, e) \<Rightarrow>
          (case decode_strings js (tl old) of
             (ss, e') \<Rightarrow> (s # ss, saveError e e')))"

definition decode_Arguments ::
  "json \<Rightarrow> string slice \<times> string list \<Rightarrow> (string slice \<times> string list) \<times> error option" where
  "decode_Arguments j cur =
     (case j of
        JArray js \<Rightarrow>
          (if js = [] then ((Slice [], []), None)
           else
             (case decode_strings js (elems (fst cur) @ snd cur) of
                (ss, e) \<Rightarrow> ((Slice ss, drop (length js) (elems (fst cur) @ snd cur)), e)))
      | JNull \<Rightarrow> ((NilSlice, []), None)
      | _ \<Rightarrow> (cur, Some (UnmarshalTypeError (kind_of j))))"

definition decode_member ::
  "Command \<times> error option \<times> string list \<Rightarrow> string \<times> json
     \<Rightarrow> Command \<times> error option \<times> string list" where
  "decode_member st m =
     (case st of
        (c, saved, spare) \<Rightarrow>
          (case find_field (fst m) of
             None \<Rightarrow> st
           | Some FDirectory \<Rightarrow>
               (case decode_string (snd m) (Directory c) of
                  (s, e) \<Rightarrow> (c\<lparr>Directory := s\<rparr>, saveError saved e, spare))
           | Some FCommand \<Rightarrow>
               (case decode_string (snd m) (Command c) of
                  (s, e) \<Rightarrow> (c\<lparr>Command := s\<rparr>, saveError saved e, spare))
           | Some FArguments \<Rightarrow>
               (case decode_Arguments (snd m) (Arguments c, spare) of
                  ((a, spare'), e) \<Rightarrow> (c\<lparr>Arguments := a\<rparr>, saveError saved e, spare'))
           | Some FFile \<Rightarrow>
               (case decode_string (snd m) (Command.File c) of
                  (s, e) \<Rightarrow> (c\<lparr>Command.File := s\<rparr>, saveError saved e, spare))))"

definition zero_Command :: Command where
  "zero_Command = \<lparr>Directory = [], Command = [], Arguments = NilSlice, File = []\<rparr>"

definition decode_Command :: "json \<Rightarrow> Command \<times> error option" where
  \<comment> \<open>into a new element of the slice, which holds the zero value\<close>
  "decode_Command j =
     (case j of
        JObject ms \<Rightarrow>
          (case foldl decode_member (zero_Command, None, []) ms of
             (c, e, spare) \<Rightarrow> (c, e))
      | JNull \<Rightarrow> (zero_Command, None)
      | _ \<Rightarrow> (zero_Command, Some (UnmarshalTypeError (kind_of j))))"

fun decode_Commands :: "json list \<Rightarrow> Command list \<times> error option" where
  "decode_Commands [] = ([], None)"
| "decode_Commands (j # js) =
     (case decode_Command j of
        (c, e) \<Rightarrow>
          (case decode_Commands js of
             (cs, e') \<Rightarrow> (c # cs, saveError e e')))"

definition decode_Contents :: "json \<Rightarrow> Command slice \<Rightarrow> Command slice \<times> error option" where
  \<comment> \<open>into a slice of length and capacity 0, which is what \<open>LoadDatabase\<close> passes\<close>
  "decode_Contents j cur =
     (case j of
        JArray js \<Rightarrow> (case decode_Commands js of (cs, e) \<Rightarrow> (Slice cs, e))
      | JNull \<Rightarrow> (NilSlice, None)
      | _ \<Rightarrow> (cur, Some (UnmarshalTypeError (kind_of j))))"

definition Unmarshal :: "bytes \<Rightarrow> Command slice \<Rightarrow> Command slice \<times> error option" where
  "Unmarshal data v =
     (case parse_json data of
        None \<Rightarrow> (v, Some SyntaxError)
      | Some j \<Rightarrow> decode_Contents j v)"

section \<open>\<open>database.go\<close>\<close>

text \<open>
  The four operations. A method called through a \<open>nil\<close> pointer that reads a field of its
  receiver panics: \<open>file.ReadFile()\<close>, \<open>db.File.WriteFile()\<close>, \<open>command.GetDir()\<close>,
  \<open>target.String()\<close> and the accesses to \<open>db.Contents\<close>.
\<close>

definition NewDatabase :: "Path \<Rightarrow> world \<Rightarrow> nat \<times> world" where
  "NewDatabase filename w = alloc \<lparr>Contents = Slice [], File = filename\<rparr> w"

definition LoadDatabase ::
  "Path \<Rightarrow> world \<Rightarrow> ((nat option \<times> error option) \<times> world) outcome" where
  "LoadDatabase file w =
     (case file of
        None \<Rightarrow> Panics
      | Some p \<Rightarrow>
          (case ReadFile p w of
             Inl err \<Rightarrow> Returns ((None, Some (OSError err)), w)
           | Inr f \<Rightarrow>
               (case NewDatabase file w of
                  (res, w1) \<Rightarrow>
                    (case deref w1 res of
                       None \<Rightarrow> Panics
                     | Some d \<Rightarrow>
                         (case Unmarshal f (Contents d) of
                            (c, err) \<Rightarrow>
                              Returns ((Some res, err), store res (d\<lparr>Contents := c\<rparr>) w1))))))"

definition SaveToFile :: "nat \<Rightarrow> world \<Rightarrow> world outcome" where
  "SaveToFile db w =
     (case deref w db of
        None \<Rightarrow> Panics
      | Some d \<Rightarrow>
          (case MarshalIndent (Contents d) of
             Inl err \<Rightarrow>
               Returns (Println (tr ''Error serializing compilation database: %s''
                                   (marshal_Error err)) w)
           | Inr jsonContents \<Rightarrow>
               (case Database.File d of
                  None \<Rightarrow> Panics
                | Some p \<Rightarrow>
                    (case WriteFile p jsonContents w of
                       (Some err, w') \<Rightarrow>
                         Returns (Println (tr ''Error writing compilation database: %s''
                                             (Error err)) w')
                     | (None, w') \<Rightarrow> Returns w'))))"

definition Add :: "nat \<Rightarrow> Path \<Rightarrow> Process option \<Rightarrow> world \<Rightarrow> world outcome" where
  "Add db target command w =
     (case command of
        None \<Rightarrow> Panics
      | Some cmd \<Rightarrow>
          (case (if GetDir cmd = [] then
                   (case Getwd w of
                      (dir, Some err) \<Rightarrow>
                        (dir, Println
                           (tr ''Error getting current directory for compilation database: %s''
                              (Error err)) w)
                    | (dir, None) \<Rightarrow> (dir, w))
                 else (GetDir cmd, w)) of
             (commandDir, w1) \<Rightarrow>
               (case target of
                  None \<Rightarrow> Panics
                | Some t \<Rightarrow>
                    (let entry = \<lparr>Directory = commandDir, Command = [],
                                   Arguments = GetArgs cmd, File = t\<rparr>
                     in case deref w1 db of
                          None \<Rightarrow> Panics
                        | Some d \<Rightarrow>
                            Returns (store db
                              (d\<lparr>Contents := append_slice (Contents d) entry\<rparr>) w1)))))"

text \<open>
  A caller making one \<open>Add\<close> call after the other on the same database, each with a target
  and an invocation, and the directory that an \<open>Add\<close> call records.
\<close>

fun Adds :: "nat \<Rightarrow> (string \<times> Process) list \<Rightarrow> world \<Rightarrow> world outcome" where
  "Adds db [] w = Returns w"
| "Adds db (call # calls) w =
     (case Add db (Some (fst call)) (Some (snd call)) w of
        Panics \<Rightarrow> Panics
      | Returns w' \<Rightarrow> Adds db calls w')"

definition commandDir :: "Process \<Rightarrow> world \<Rightarrow> string" where
  "commandDir command w = (if GetDir command = [] then fst (Getwd w) else GetDir command)"

section \<open>\<open>compile.go\<close>: the hardware path of the last IDE\<close>

text \<open>
  The block of \<open>run\<close> that follows a successful \<open>properties.Load\<close> of \<open>preferences.txt\<close>. A
  \<open>properties.Map\<close> is a Go map from strings to strings, here the list of its entries.
  \<open>SubTree\<close> keeps the keys under a first segment and strips the segment; indexing a map
  with a key it does not hold gives the empty string; indexing a slice outside its bounds
  panics.
\<close>

type_synonym Map = "(string \<times> string) list"

definition SubTree :: "Map \<Rightarrow> string \<Rightarrow> Map" where
  "SubTree m key =
     map (\<lambda>kv. (drop (Suc (length key)) (fst kv), snd kv))
       (filter (\<lambda>kv. take (Suc (length key)) (fst kv) = key @ ''.'') m)"

definition HasSuffix :: "string \<Rightarrow> string \<Rightarrow> bool" where
  "HasSuffix s suffix =
     (length suffix \<le> length s \<and> drop (length s - length suffix) s = suffix)"

definition map_index :: "Map \<Rightarrow> string \<Rightarrow> string" where
  "map_index m k = (case map_of m k of None \<Rightarrow> [] | Some v \<Rightarrow> v)"

definition slice_index :: "'a list \<Rightarrow> int \<Rightarrow> 'a outcome" where
  "slice_index xs i = (if 0 \<le> i \<and> i < int (length xs) then Returns (xs ! nat i) else Panics)"

definition ideHardwarePath :: "Map \<Rightarrow> string outcome" where
  "ideHardwarePath ideProperties =
     (let lastIdeSubProperties = SubTree (SubTree ideProperties ''last'') ''ide'';
          pathVariants = sort (filter (\<lambda>k. HasSuffix k ''.hardwarepath'')
                                 (map fst lastIdeSubProperties))
      in case slice_index pathVariants (int (length pathVariants) - 1) of
           Panics \<Rightarrow> Panics
         | Returns k \<Rightarrow> Returns (map_index lastIdeSubProperties k))"

text \<open>
  Worlds for the examples: the same answer for every path, a single file, and a world with
  no file and no fault whose heap holds one empty database bound to \<open>cc.json\<close>.
\<close>

definition every_path :: "'a \<Rightarrow> string \<Rightarrow> 'a" where
  "every_path x p = x"

definition holds_file :: "string \<Rightarrow> bytes \<Rightarrow> string \<Rightarrow> bytes option" where
  "holds_file p b q = (if q = p then Some b else None)"

definition quiet_world :: world where
  "quiet_world =
     \<lparr>files = every_path None, fault = every_path NoFault, cwd = ''/home'',
      getwd_error = None, stdout = [],
      heap = [\<lparr>Contents = Slice [], File = Some ''cc.json''\<rparr>]\<rparr>"

section \<open>Notions used to state the properties\<close>

text \<open>
  What reading back makes of a string, a JSON tree, an entry and an entry sequence; the
  tokens of a tree; the trees without numbers and the nesting depth of a tree; the entries
  with exactly one representation of the command line; sequences of calls of the four
  operations.
\<close>

fun coerce_utf8 :: "bytes \<Rightarrow> bytes" where
  "coerce_utf8 [] = []"
| "coerce_utf8 (c # cs) =
     (case DecodeRune (c # cs) of (r, n) \<Rightarrow> EncodeRune r @ coerce_utf8 (drop (n - 1) cs))"

fun tokens_of :: "json \<Rightarrow> token list" where
  "tokens_of JNull = [TNull]"
| "tokens_of (JBool b) = [if b then TTrue else TFalse]"
| "tokens_of (JNumber n) = [TNumber n]"
| "tokens_of (JString s) = [TString s]"
| "tokens_of (JArray js) = LBrack # join [Comma] (map tokens_of js) @ [RBrack]"
| "tokens_of (JObject ms) =
     LBrace # join [Comma] (map (\<lambda>m. TString (fst m) # Colon # tokens_of (snd m)) ms) @ [RBrace]"

fun coerce_json :: "json \<Rightarrow> json" where
  "coerce_json (JString s) = JString (coerce_utf8 s)"
| "coerce_json (JArray js) = JArray (map coerce_json js)"
| "coerce_json (JObject ms) = JObject (map (\<lambda>m. (coerce_utf8 (fst m), coerce_json (snd m))) ms)"
| "coerce_json j = j"

fun no_numbers :: "json \<Rightarrow> bool" where
  "no_numbers (JNumber n) = False"
| "no_numbers (JArray js) = list_all no_numbers js"
| "no_numbers (JObject ms) = list_all (\<lambda>m. no_numbers (snd m)) ms"
| "no_numbers j = True"

fun depth :: "json \<Rightarrow> nat" where
  "depth (JArray js) = Suc (fold max (map depth js) 0)"
| "depth (JObject ms) = Suc (fold max (map (\<lambda>m. depth (snd m)) ms) 0)"
| "depth j = 0"

definition pre :: "token list \<Rightarrow> token list option \<Rightarrow> token list option" where
  "pre ts r = map_option ((@) ts) r"

definition coerce_Command :: "Command \<Rightarrow> Command" where
  "coerce_Command c =
     \<lparr>Directory = coerce_utf8 (Directory c), Command = coerce_utf8 (Command c),
      Arguments = (if len (Arguments c) = 0 then NilSlice
                   else Slice (map coerce_utf8 (elems (Arguments c)))),
      File = coerce_utf8 (Command.File c)\<rparr>"

fun coerce_Contents :: "Command slice \<Rightarrow> Command slice" where
  "coerce_Contents NilSlice = NilSlice"
| "coerce_Contents (Slice cs) = Slice (map coerce_Command cs)"

definition valid_Command :: "Command \<Rightarrow> bool" where
  "valid_Command c =
     (ValidString (Directory c) \<and> ValidString (Command c)
      \<and> list_all ValidString (elems (Arguments c)) \<and> ValidString (Command.File c))"

definition read_back :: "Command \<Rightarrow> Command" where
  "read_back c = c\<lparr>Arguments := (if len (Arguments c) = 0 then NilSlice else Arguments c)\<rparr>"

definition exactly_one_populated :: "Command \<Rightarrow> bool" where
  "exactly_one_populated c = ((Command c \<noteq> []) \<noteq> (len (Arguments c) \<noteq> 0))"













datatype call =
    CallNew Path
  | CallLoad Path
  | CallAdd nat Path "Process option"
  | CallSave nat






section \<open>Properties of the compilation database\<close>

subsection \<open>Pointers, files and the standard output\<close>

lemma deref_Println [simp]: "deref (Println s w) p = deref w p"
  by (simp add: deref_def Println_def)

lemma Add_Returns:
  assumes "deref w db = Some d"
  shows "\<exists>w'. Add db (Some target) (Some command) w = Returns w'
           \<and> deref w' db = Some (d\<lparr>Contents := append_slice (Contents d)
                 \<lparr>Directory = commandDir command w, Command = [],
                  Arguments = GetArgs command, File = target\<rparr>\<rparr>)
           \<and> (\<forall>q. q \<noteq> db \<longrightarrow> deref w' q = deref w q)
           \<and> cwd w' = cwd w \<and> getwd_error w' = getwd_error w
           \<and> files w' = files w \<and> fault w' = fault w
           \<and> stdout w' = stdout w @
                (case getwd_error w of
                   Some e \<Rightarrow> if GetDir command = [] then
                     [tr ''Error getting current directory for compilation database: %s'' (Error e)]
                     else []
                 | None \<Rightarrow> [])"
  using assms
  by (cases "getwd_error w")
     (auto simp: Add_def Getwd_def commandDir_def Let_def store_def Println_def deref_def
        split: if_splits)

lemma SaveToFile_Returns:
  assumes "deref w db = Some d" "Database.File d = Some p"
  shows "SaveToFile db w =
     (case WriteFile p (render 0 (json_of_Contents (Contents d))) w of
        (Some err, w') \<Rightarrow>
          Returns (Println (tr ''Error writing compilation database: %s'' (Error err)) w')
      | (None, w') \<Rightarrow> Returns w')"
  using assms by (simp add: SaveToFile_def MarshalIndent_def)

lemma WriteFile_unchanged:
  "heap (snd (WriteFile p data w)) = heap w" "stdout (snd (WriteFile p data w)) = stdout w"
  "fault (snd (WriteFile p data w)) = fault w" "cwd (snd (WriteFile p data w)) = cwd w"
  "getwd_error (snd (WriteFile p data w)) = getwd_error w"
  by (simp_all add: WriteFile_def split: io_fault.splits)

lemma WriteFile_files:
  "files (snd (WriteFile p data w)) =
     (case fault w p of
        OpenFault e \<Rightarrow> files w
      | WriteFault n e \<Rightarrow> (files w)(p \<mapsto> take n data)
      | _ \<Rightarrow> (files w)(p \<mapsto> data))"
  by (simp add: WriteFile_def split: io_fault.splits)

lemma WriteFile_error:
  "fst (WriteFile p data w) =
     (case fault w p of OpenFault e \<Rightarrow> Some e | WriteFault n e \<Rightarrow> Some e | _ \<Rightarrow> None)"
  by (simp add: WriteFile_def split: io_fault.splits)

lemma SaveToFile_effect:
  assumes "deref w db = Some d" "Database.File d = Some p"
  shows "\<exists>w'. SaveToFile db w = Returns w'
           \<and> files w' = files (snd (WriteFile p (render 0 (json_of_Contents (Contents d))) w))
           \<and> heap w' = heap w \<and> fault w' = fault w \<and> cwd w' = cwd w
           \<and> getwd_error w' = getwd_error w
           \<and> stdout w' = stdout w @
                (case fst (WriteFile p (render 0 (json_of_Contents (Contents d))) w) of
                   Some err \<Rightarrow> [tr ''Error writing compilation database: %s'' (Error err)]
                 | None \<Rightarrow> [])"
proof (cases "WriteFile p (render 0 (json_of_Contents (Contents d))) w")
  case (Pair e w1)
  have "heap w1 = heap w" "stdout w1 = stdout w" "fault w1 = fault w" "cwd w1 = cwd w"
    "getwd_error w1 = getwd_error w"
    using WriteFile_unchanged [of p "render 0 (json_of_Contents (Contents d))" w] Pair
    by simp_all
  then show ?thesis
    using Pair by (cases e) (simp_all add: SaveToFile_Returns [OF assms] Println_def)
qed

lemma NewDatabase_eq:
  "NewDatabase p w = (length (heap w), w\<lparr>heap := heap w @ [\<lparr>Contents = Slice [], File = p\<rparr>]\<rparr>)"
  by (simp add: NewDatabase_def alloc_def)

subsection \<open>\<open>Add\<close>, \<open>SaveToFile\<close> and \<open>NewDatabase\<close>\<close>

lemma deref_quiet_world:
  "deref quiet_world 0 = Some \<lparr>Contents = Slice [], File = Some ''cc.json''\<rparr>"
  by (simp add: deref_def quiet_world_def)

lemma deref_update [simp]:
  "deref (w\<lparr>files := f\<rparr>) p = deref w p" "deref (w\<lparr>fault := g\<rparr>) p = deref w p"
  "deref (w\<lparr>cwd := c\<rparr>) p = deref w p" "deref (w\<lparr>getwd_error := e\<rparr>) p = deref w p"
  "deref (w\<lparr>stdout := out\<rparr>) p = deref w p"
  by (simp_all add: deref_def)

text \<open>
  C2: every \<open>Add\<close> call appends exactly one entry at the end of the entry sequence and
  leaves the entries before it as they are and where they are; after a sequence of calls the
  new entries are in the order of the calls (here told apart by the file and the argument
  vector each call passes). A single call is the sequence of length one.
\<close>

theorem Add_appends_in_call_order:
  assumes "deref w db = Some d"
  shows "\<exists>w' d' es. Adds db calls w = Returns w' \<and> deref w' db = Some d'
           \<and> elems (Contents d') = elems (Contents d) @ es
           \<and> length es = length calls
           \<and> map Command.File es = map fst calls
           \<and> map Arguments es = map (\<lambda>call. GetArgs (snd call)) calls"
  using assms
proof (induction calls arbitrary: w d)
  case Nil
  then show ?case by simp
next
  case (Cons call calls)
  obtain w1 where w1: "Add db (Some (fst call)) (Some (snd call)) w = Returns w1"
    and d1: "deref w1 db = Some (d\<lparr>Contents := append_slice (Contents d)
                 \<lparr>Directory = commandDir (snd call) w, Command = [],
                  Arguments = GetArgs (snd call), File = fst call\<rparr>\<rparr>)"
    using Add_Returns [OF Cons.prems] by blast
  from Cons.IH [OF d1] obtain w' d' es where
    "Adds db calls w1 = Returns w'" "deref w' db = Some d'"
    "elems (Contents d') = elems (Contents d) @ \<lparr>Directory = commandDir (snd call) w, Command = [],
                  Arguments = GetArgs (snd call), File = fst call\<rparr> # es"
    "length es = length calls" "map Command.File es = map fst calls"
    "map Arguments es = map (\<lambda>call. GetArgs (snd call)) calls"
    by (auto simp: append_slice_def)
  with w1 show ?case
    by simp
qed

theorem Add_appends_in_call_order_witness:
  "deref quiet_world 0 = Some \<lparr>Contents = Slice [], File = Some ''cc.json''\<rparr>
   \<and> (\<exists>w' d' es.
         Adds 0 [(''a.c'', \<lparr>GetDir = ''/src'', GetArgs = Slice [''gcc'', ''a.c'']\<rparr>),
                 (''b.c'', \<lparr>GetDir = [], GetArgs = Slice [''gcc'', ''b.c'']\<rparr>)]
           quiet_world = Returns w'
         \<and> deref w' 0 = Some d'
         \<and> elems (Contents d') = es
         \<and> map Command.File es = [''a.c'', ''b.c''])"
proof -
  from Add_appends_in_call_order [OF deref_quiet_world,
      of "[(''a.c'', \<lparr>GetDir = ''/src'', GetArgs = Slice [''gcc'', ''a.c'']\<rparr>),
           (''b.c'', \<lparr>GetDir = [], GetArgs = Slice [''gcc'', ''b.c'']\<rparr>)]"]
  show ?thesis
    using deref_quiet_world by auto
qed

text \<open>
  C3: the claim is that with an empty working directory in the descriptor the entry holds
  the current working directory of the process. When \<open>os.Getwd\<close> fails, \<open>Add\<close> prints the
  error and records what \<open>os.Getwd\<close> returned with it, the empty string: here the process
  is in \<open>/home\<close> and the entry holds no directory.
\<close>

theorem Add_directory_when_Getwd_fails_counterexample:
  "Add 0 (Some ''a.c'') (Some \<lparr>GetDir = [], GetArgs = Slice [''gcc'', ''a.c'']\<rparr>)
     (quiet_world\<lparr>getwd_error := Some (SyscallError ''getwd'' ''no such file or directory'')\<rparr>)
   = Returns
       (quiet_world
          \<lparr>getwd_error := Some (SyscallError ''getwd'' ''no such file or directory''),
           stdout := [tr ''Error getting current directory for compilation database: %s''
                         ''getwd: no such file or directory''],
           heap := [\<lparr>Contents = Slice [\<lparr>Directory = [], Command = [],
                                           Arguments = Slice [''gcc'', ''a.c''], File = ''a.c''\<rparr>],
                     File = Some ''cc.json''\<rparr>]\<rparr>)
   \<and> cwd (quiet_world\<lparr>getwd_error := Some (SyscallError ''getwd'' ''no such file or directory'')\<rparr>)
       = ''/home''"
  by (simp add: Add_def Getwd_def quiet_world_def deref_def store_def Println_def
      append_slice_def)

text \<open>
  C3, as the code has it: for a database, a target and a descriptor that are not \<open>nil\<close>,
  the entry that \<open>Add\<close> appends holds the working directory of the descriptor when that is
  not empty; when it is empty, the entry holds the current working directory of the process
  if \<open>os.Getwd\<close> succeeds during the call, and the empty string if \<open>os.Getwd\<close> fails.
\<close>

theorem Add_records_directory:
  assumes "deref w db = Some d"
  shows "\<exists>w' d' e. Add db (Some target) (Some command) w = Returns w' \<and> deref w' db = Some d'
           \<and> elems (Contents d') = elems (Contents d) @ [e]
           \<and> (GetDir command \<noteq> [] \<longrightarrow> Directory e = GetDir command)
           \<and> (GetDir command = [] \<and> getwd_error w = None \<longrightarrow> Directory e = cwd w)
           \<and> (GetDir command = [] \<and> getwd_error w \<noteq> None \<longrightarrow> Directory e = [])"
proof -
  from Add_Returns [OF assms, of target command] obtain w' where
    "Add db (Some target) (Some command) w = Returns w'"
    "deref w' db = Some (d\<lparr>Contents := append_slice (Contents d)
       \<lparr>Directory = commandDir command w, Command = [],
        Arguments = GetArgs command, File = target\<rparr>\<rparr>)"
    by blast
  then show ?thesis
    by (auto simp: append_slice_def commandDir_def Getwd_def)
qed

theorem Add_records_directory_witness:
  "deref quiet_world 0 = Some \<lparr>Contents = Slice [], File = Some ''cc.json''\<rparr>
   \<and> (\<exists>w' d' e.
      Add 0 (Some ''a.c'') (Some \<lparr>GetDir = ''/src'', GetArgs = Slice [''gcc'', ''a.c'']\<rparr>)
        quiet_world = Returns w'
      \<and> deref w' 0 = Some d' \<and> elems (Contents d') = [e] \<and> Directory e = ''/src'')
   \<and> (\<exists>w' d' e.
      Add 0 (Some ''a.c'') (Some \<lparr>GetDir = [], GetArgs = Slice [''gcc'', ''a.c'']\<rparr>)
        quiet_world = Returns w'
      \<and> deref w' 0 = Some d' \<and> elems (Contents d') = [e] \<and> Directory e = ''/home'')
   \<and> (\<exists>w' d' e.
      Add 0 (Some ''a.c'') (Some \<lparr>GetDir = [], GetArgs = Slice [''gcc'', ''a.c'']\<rparr>)
        (quiet_world\<lparr>getwd_error := Some (SyscallError ''getwd'' ''no such file or directory'')\<rparr>)
        = Returns w'
      \<and> deref w' 0 = Some d' \<and> elems (Contents d') = [e] \<and> Directory e = [])"
proof -
  have h: "deref (quiet_world\<lparr>getwd_error := Some (SyscallError ''getwd'' ''no such file or directory'')\<rparr>) 0
             = Some \<lparr>Contents = Slice [], File = Some ''cc.json''\<rparr>"
    using deref_quiet_world by simp
  have c: "cwd quiet_world = ''/home''" "getwd_error quiet_world = None"
    by (simp_all add: quiet_world_def)
  from Add_records_directory [OF deref_quiet_world, of "''a.c''"
      "\<lparr>GetDir = ''/src'', GetArgs = Slice [''gcc'', ''a.c'']\<rparr>"]
    Add_records_directory [OF deref_quiet_world, of "''a.c''"
      "\<lparr>GetDir = [], GetArgs = Slice [''gcc'', ''a.c'']\<rparr>"]
    Add_records_directory [OF h, of "''a.c''"
      "\<lparr>GetDir = [], GetArgs = Slice [''gcc'', ''a.c'']\<rparr>"]
  show ?thesis
    using deref_quiet_world c by auto
qed




text \<open>
  C8: \<open>NewDatabase\<close> leaves the file system as it is, and the database it returns is
  serialized as \<open>[]\<close>, which is the JSON text of the empty array; \<open>SaveToFile\<close> returns,
  and when the write succeeds the file holds exactly \<open>[]\<close>.
\<close>

theorem Save_empty_database:
  assumes "NewDatabase (Some p) w = (db, w1)"
  shows "files w1 = files w \<and> fault w1 = fault w
       \<and> MarshalIndent (Contents (heap w1 ! db)) = Inr ''[]''
       \<and> parse_json ''[]'' = Some (JArray [])
       \<and> (\<exists>w2. SaveToFile db w1 = Returns w2
             \<and> (fault w p = NoFault \<longrightarrow> files w2 p = Some ''[]''))"
proof -
  from assms have db: "db = length (heap w)"
    and w1: "w1 = w\<lparr>heap := heap w @ [\<lparr>Contents = Slice [], File = Some p\<rparr>]\<rparr>"
    by (simp_all add: NewDatabase_eq)
  have d: "deref w1 db = Some \<lparr>Contents = Slice [], File = Some p\<rparr>"
    by (simp add: db w1 deref_def)
  have m: "MarshalIndent (Contents (heap w1 ! db)) = Inr ''[]''"
    by (simp add: db w1 MarshalIndent_def)
  have lx: "lex ''[]'' = Some [LBrack, RBrack]"
    by (simp add: isSpace_def lex_token_def)
  have p: "parse_json ''[]'' = Some (JArray [])"
    unfolding parse_json_def lx
    by (simp add: step_def begin_value_def maxNestingDepth_def)
  from SaveToFile_effect [OF d, of p] obtain w2 where
    w2: "SaveToFile db w1 = Returns w2"
    "files w2 = files (snd (WriteFile p (render 0 (json_of_Contents (Slice []))) w1))"
    by auto
  have "fault w p = NoFault \<Longrightarrow> files w2 p = Some ''[]''"
    by (simp add: w2(2) WriteFile_files w1)
  with w2(1) m p show ?thesis
    unfolding w1 by simp
qed

theorem Save_empty_database_witness:
  "NewDatabase (Some ''cc.json'') (quiet_world\<lparr>heap := []\<rparr>) = (0, quiet_world)
   \<and> (\<exists>w2. SaveToFile 0 quiet_world = Returns w2 \<and> files w2 ''cc.json'' = Some ''[]'')"
proof -
  have h: "NewDatabase (Some ''cc.json'') (quiet_world\<lparr>heap := []\<rparr>) = (0, quiet_world)"
    by (simp add: NewDatabase_eq quiet_world_def)
  have "fault (quiet_world\<lparr>heap := []\<rparr>) ''cc.json'' = NoFault"
    by (simp add: quiet_world_def every_path_def)
  with Save_empty_database [OF h] show ?thesis
    using h by simp
qed

text \<open>
  C6: the claim is that the target file ends up fully overwritten or unchanged, never
  truncated or partially written. \<open>SaveToFile\<close> writes with \<open>WriteFile\<close>, which truncates the
  file and then writes into it: when the write fails after the first byte, the file holds
  that byte only, which is neither its previous content nor the serialization.
\<close>

theorem SaveToFile_partial_write_counterexample:
  "SaveToFile 0
     (quiet_world\<lparr>files := holds_file ''cc.json'' ''previous content'',
                  fault := every_path (WriteFault 1 (PathError ''write'' ''cc.json''
                                                       ''no space left on device''))\<rparr>)
   = Returns
     (quiet_world\<lparr>files := (holds_file ''cc.json'' ''previous content'')(''cc.json'' \<mapsto> ''[''),
                  fault := every_path (WriteFault 1 (PathError ''write'' ''cc.json''
                                                       ''no space left on device'')),
                  stdout := [tr ''Error writing compilation database: %s''
                               ''write cc.json: no space left on device'']\<rparr>)
   \<and> MarshalIndent (Slice []) = Inr ''[]''
   \<and> ''['' \<noteq> ''[]'' \<and> ''['' \<noteq> ''previous content''"
  by (simp add: SaveToFile_def deref_def MarshalIndent_def WriteFile_def Println_def
      every_path_def quiet_world_def)

text \<open>
  C6, as the code has it: after \<open>SaveToFile\<close> on a database that is not \<open>nil\<close> and whose
  \<open>File\<close> is not \<open>nil\<close>, the target file is unchanged when it could not be opened for writing,
  holds the complete serialization when the write succeeded, and holds the first \<open>n\<close> bytes
  of the serialization when the write failed after \<open>n\<close> bytes.
\<close>

theorem SaveToFile_file_contents:
  assumes "deref w db = Some d" "Database.File d = Some p"
  shows "\<exists>w'. SaveToFile db w = Returns w'
           \<and> (\<forall>q. q \<noteq> p \<longrightarrow> files w' q = files w q)
           \<and> files w' p =
               (case fault w p of
                  OpenFault e \<Rightarrow> files w p
                | WriteFault n e \<Rightarrow> Some (take n (render 0 (json_of_Contents (Contents d))))
                | _ \<Rightarrow> Some (render 0 (json_of_Contents (Contents d))))"
proof -
  from SaveToFile_effect [OF assms] obtain w' where
    "SaveToFile db w = Returns w'"
    "files w' = files (snd (WriteFile p (render 0 (json_of_Contents (Contents d))) w))"
    by blast
  then show ?thesis
    by (simp add: WriteFile_files split: io_fault.splits)
qed

theorem SaveToFile_file_contents_witness:
  "deref (quiet_world\<lparr>files := holds_file ''cc.json'' ''previous content'',
                       fault := every_path (WriteFault 1 (PathError ''write'' ''cc.json''
                                                            ''no space left on device''))\<rparr>) 0
     = Some \<lparr>Contents = Slice [], File = Some ''cc.json''\<rparr>
   \<and> Database.File \<lparr>Contents = Slice [], File = Some ''cc.json''\<rparr> = Some ''cc.json''
   \<and> (\<exists>w'. SaveToFile 0
         (quiet_world\<lparr>files := holds_file ''cc.json'' ''previous content'',
                      fault := every_path (WriteFault 1 (PathError ''write'' ''cc.json''
                                                           ''no space left on device''))\<rparr>)
       = Returns w' \<and> files w' ''cc.json'' = Some ''['' \<and> files w' ''other.json'' = None)"
proof -
  let ?w = "quiet_world\<lparr>files := holds_file ''cc.json'' ''previous content'',
                       fault := every_path (WriteFault 1 (PathError ''write'' ''cc.json''
                                                            ''no space left on device''))\<rparr>"
  have h: "deref ?w 0 = Some \<lparr>Contents = Slice [], File = Some ''cc.json''\<rparr>"
    using deref_quiet_world by simp
  from SaveToFile_file_contents [OF h, of "''cc.json''"] show ?thesis
    using h by (auto simp: holds_file_def every_path_def)
qed

subsection \<open>Strings and JSON texts are read back as they were written\<close>

text \<open>
  A string literal written by the encoder is read back as the string with every byte that
  is not part of a UTF-8 encoding replaced by U+FFFD; the text written for a tree without
  numbers is cut into the tokens of the tree; the tokens of a tree are assembled into the
  tree; decoding the tree of an entry sequence gives the entry sequence back.
\<close>

lemma list4_cases:
  obtains "s = []" | a where "s = [a]" | a b where "s = [a, b]" | a b c where "s = [a, b, c]"
    | a b c d t where "s = a # b # c # d # t"
  by (metis list.exhaust)

lemma DecodeRune_take4: "DecodeRune (take 4 s) = DecodeRune s"
  by (cases s rule: list4_cases) (simp_all add: Let_def)

lemma DecodeRune_ascii: "byte c < 0x80 \<Longrightarrow> DecodeRune (c # s) = (byte c, 1)"
  by simp

lemma DecodeRune_size:
  assumes "DecodeRune s = (r, n)" "s \<noteq> []"
  shows "1 \<le> n \<and> n \<le> 4 \<and> n \<le> length s"
  using assms
  by (cases s rule: list4_cases) (auto simp: Let_def split: if_splits)

lemma DecodeRune_append:
  assumes "DecodeRune s = (r, n)" "\<not> (r = RuneError \<and> n = 1)" "s \<noteq> []"
  shows "DecodeRune (take n s @ t) = (r, n)"
  using assms
  by (cases s rule: list4_cases) (auto simp: Let_def RuneError_def split: if_splits)

lemma char_of_byte [simp]: "char_of (byte b) = b"
  by (simp add: byte_def)

lemma byte_less_256: "byte b < 256"
  by (simp add: byte_def)

lemma hexval_hex: "n < 16 \<Longrightarrow> hexval (hex n) = Some n"
proof -
  have "\<forall>n \<in> set [0..<16]. hexval (hex n) = Some n"
    by code_simp
  then show "n < 16 \<Longrightarrow> hexval (hex n) = Some n"
    by simp
qed

lemma EncodeRune_ascii: "r < 0x80 \<Longrightarrow> EncodeRune r = [char_of r]"
  by (simp add: EncodeRune_def)

lemma emit_emit: "emit a (emit b r) = emit (a @ b) r"
  by (cases r) (auto simp: emit_def)

lemma emit_Some_eq [simp]: "emit a (Some (s, rest)) = Some (a @ s, rest)"
  by (simp add: emit_def)

lemma lex_string_safe:
  assumes "htmlSafe b"
  shows "lex_string (b # t) = emit [b] (lex_string t)"
  using assms by (simp add: htmlSafe_def)

lemma getu4_byte:
  assumes "n < 256"
  shows "getu4 (CHR ''0'' # CHR ''0'' # hex (n div 16) # hex (n mod 16) # t) = Some n"
proof -
  have "n div 16 < 16" "n mod 16 < 16"
    using assms by simp_all
  then have "hexval (hex (n div 16)) = Some (n div 16)" "hexval (hex (n mod 16)) = Some (n mod 16)"
    by (simp_all add: hexval_hex)
  moreover have "hexval CHR ''0'' = Some 0"
    by (simp add: hexval_def byte_def)
  ultimately show ?thesis
    by simp
qed

lemma simple_escape_cases:
  "simple_escape CHR 0x5C = Some (CHR 0x5C)" "simple_escape CHR 0x22 = Some (CHR 0x22)"
  "simple_escape CHR ''b'' = Some (CHR 0x08)" "simple_escape CHR ''f'' = Some (CHR 0x0C)"
  "simple_escape CHR ''n'' = Some (CHR 0x0A)" "simple_escape CHR ''r'' = Some (CHR 0x0D)"
  "simple_escape CHR ''t'' = Some (CHR 0x09)"
  by (simp_all add: simple_escape_def)

lemma lex_string_escape_byte:
  assumes "byte b < 0x80"
  shows "lex_string (escape_byte b @ t) = emit [b] (lex_string t)"
proof (cases "b = CHR 0x5C \<or> b = CHR 0x22 \<or> b = CHR 0x08 \<or> b = CHR 0x0C \<or> b = CHR 0x0A
               \<or> b = CHR 0x0D \<or> b = CHR 0x09")
  case True
  then show ?thesis
    by (elim disjE) (simp_all add: escape_byte_def simple_escape_cases)
next
  case False
  then have e: "escape_byte b = [CHR 0x5C, CHR ''u'', CHR ''0'', CHR ''0'',
                                hex (byte b div 16), hex (byte b mod 16)]"
    by (simp add: escape_byte_def)
  have g: "getu4 (CHR ''0'' # CHR ''0'' # hex (byte b div 16) # hex (byte b mod 16) # t)
             = Some (byte b)"
    by (rule getu4_byte) (rule byte_less_256)
  show ?thesis
    using assms by (simp add: e g EncodeRune_ascii del: getu4.simps)
qed

lemma lex_string_ufffd:
  "lex_string (CHR 0x5C # CHR ''u'' # CHR ''f'' # CHR ''f'' # CHR ''f'' # CHR ''d'' # t)
     = emit (EncodeRune RuneError) (lex_string t)"
  by (simp add: hexval_def byte_def RuneError_def)

lemma lex_string_u202x:
  assumes "c = 0x2028 \<or> c = 0x2029"
  shows "lex_string (CHR 0x5C # CHR ''u'' # CHR ''2'' # CHR ''0'' # CHR ''2'' # hex (c mod 16) # t)
     = emit (EncodeRune c) (lex_string t)"
  using assms by (elim disjE) (simp_all add: hexval_def byte_def hex_def)

lemma lex_string_multibyte:
  assumes "\<not> byte b < 0x80" "DecodeRune (b # bs) = (c, n)" "\<not> (c = RuneError \<and> n = 1)"
  shows "lex_string (b # take (n - 1) bs @ t) = emit (EncodeRune c) (lex_string t)"
proof -
  have n: "1 \<le> n" "n \<le> Suc (length bs)"
    using DecodeRune_size [OF assms(2)] by simp_all
  have "take n (b # bs) = b # take (n - 1) bs"
    using n by (cases n) simp_all
  with DecodeRune_append [OF assms(2,3), of t]
  have d: "DecodeRune (b # take (n - 1) bs @ t) = (c, n)"
    by simp
  have q: "b \<noteq> CHR 0x22" "b \<noteq> CHR 0x5C" "\<not> byte b < 0x20"
    using assms(1) by (auto simp: byte_def)
  have l: "drop (n - 1) (take (n - 1) bs @ t) = t"
    using n by simp
  show ?thesis
    using q assms(1) d l by (simp del: DecodeRune.simps)
qed

lemma lex_string_escape: "lex_string (escape s @ CHR 0x22 # rest) = Some (coerce_utf8 s, rest)"
proof (induction "length s" arbitrary: s rule: less_induct)
  case less
  show ?case
  proof (cases s)
    case Nil
    then show ?thesis by simp
  next
    case (Cons b bs)
    have IH: "lex_string (escape (drop k bs) @ CHR 0x22 # rest) = Some (coerce_utf8 (drop k bs), rest)"
      for k
      by (rule less.hyps) (simp add: Cons)
    show ?thesis
    proof (cases "byte b < 0x80")
      case True
      then have c: "coerce_utf8 (b # bs) = b # coerce_utf8 bs"
        by (simp add: EncodeRune_ascii)
      have "lex_string (escape (b # bs) @ CHR 0x22 # rest)
              = emit [b] (lex_string (escape bs @ CHR 0x22 # rest))"
        using True by (simp add: lex_string_safe lex_string_escape_byte del: lex_string.simps)
      also have "\<dots> = Some (coerce_utf8 (b # bs), rest)"
        using IH [of 0] by (simp add: c del: coerce_utf8.simps)
      finally show ?thesis
        by (simp only: Cons)
    next
      case False
      obtain c n where d4: "DecodeRune (take 4 (b # bs)) = (c, n)"
        by (cases "DecodeRune (take 4 (b # bs))")
      then have d: "DecodeRune (b # bs) = (c, n)"
        by (simp only: DecodeRune_take4)
      have co: "coerce_utf8 (b # bs) = EncodeRune c @ coerce_utf8 (drop (n - 1) bs)"
        using d by (simp del: DecodeRune.simps)
      have "lex_string (escape (b # bs) @ CHR 0x22 # rest)
              = emit (EncodeRune c) (lex_string (escape (drop (n - 1) bs) @ CHR 0x22 # rest))"
      proof (cases "c = RuneError \<and> n = 1")
        case True
        then have "escape (b # bs) = [CHR 0x5C, CHR ''u'', CHR ''f'', CHR ''f'', CHR ''f'', CHR ''d'']
                     @ escape (drop (n - 1) bs)"
          using False d4 by (simp del: DecodeRune.simps)
        then show ?thesis
          using True by (simp add: lex_string_ufffd del: lex_string.simps)
      next
        case nr: False
        show ?thesis
        proof (cases "c = 0x2028 \<or> c = 0x2029")
          case True
          then have "escape (b # bs) =
                       [CHR 0x5C, CHR ''u'', CHR ''2'', CHR ''0'', CHR ''2'', hex (c mod 16)]
                       @ escape (drop (n - 1) bs)"
            using False d4 nr by (simp del: DecodeRune.simps)
          then show ?thesis
            using True by (simp add: lex_string_u202x del: lex_string.simps)
        next
          case no: False
          then have "escape (b # bs) = b # take (n - 1) bs @ escape (drop (n - 1) bs)"
            using False d4 nr by (simp del: DecodeRune.simps)
          then show ?thesis
            using lex_string_multibyte [OF False d nr] by (simp del: lex_string.simps)
        qed
      qed
      also have "\<dots> = Some (coerce_utf8 (b # bs), rest)"
        using IH [of "n - 1"] by (simp add: co del: coerce_utf8.simps)
      finally show ?thesis
        by (simp only: Cons)
    qed
  qed
qed

lemma pre_pre [simp]: "pre a (pre b r) = pre (a @ b) r"
  by (cases r) (simp_all add: pre_def)

lemma pre_Nil [simp]: "pre [] r = r"
  by (cases r) (simp_all add: pre_def)

lemma pre_Some [simp]: "pre a (Some ts) = Some (a @ ts)"
  by (simp add: pre_def)

lemma map_option_Cons: "map_option ((#) t) r = pre [t] r"
  by (cases r) (simp_all add: pre_def)

lemma lex_space: "isSpace c \<Longrightarrow> lex (c # s) = lex s"
  by simp

lemma lex_newline: "lex (newline d @ s) = lex s"
proof -
  have "lex (replicate d CHR '' '' @ s) = lex s"
    by (induction d) (simp_all add: isSpace_def)
  then show ?thesis
    by (simp add: newline_def isSpace_def)
qed

lemma lex_punct:
  "lex (CHR ''['' # s) = pre [LBrack] (lex s)"
  "lex (CHR '']'' # s) = pre [RBrack] (lex s)"
  "lex (CHR ''{'' # s) = pre [LBrace] (lex s)"
  "lex (CHR ''}'' # s) = pre [RBrace] (lex s)"
  "lex (CHR '','' # s) = pre [Comma] (lex s)"
  "lex (CHR '':'' # s) = pre [Colon] (lex s)"
  by (simp_all add: isSpace_def lex_token_def map_option_Cons)

lemma lex_literals:
  "lex (''null'' @ s) = pre [TNull] (lex s)"
  "lex (''true'' @ s) = pre [TTrue] (lex s)"
  "lex (''false'' @ s) = pre [TFalse] (lex s)"
  by (simp_all add: isSpace_def lex_token_def lex_literal_def isDigit_def byte_def map_option_Cons)

lemma lex_appendString: "lex (appendString s @ rest) = pre [TString (coerce_utf8 s)] (lex rest)"
proof -
  have "lex_token (CHR 0x22) (escape s @ CHR 0x22 # rest) = Some (TString (coerce_utf8 s), rest)"
    by (simp add: lex_token_def lex_string_escape)
  then show ?thesis
    by (simp add: appendString_def isSpace_def map_option_Cons)
qed

lemma lex_blank: "lex (CHR '' '' # s) = lex s"
  by (simp add: isSpace_def)

declare lex.simps(2) [simp del]

lemma lex_join:
  assumes "\<And>x rest. x \<in> set xs \<Longrightarrow> lex (f x @ rest) = pre (g x) (lex rest)"
  shows "lex (join (CHR '','' # newline d) (map f xs) @ rest)
           = pre (join [Comma] (map g xs)) (lex rest)"
  using assms
proof (induction xs rule: induct_list012)
  case 1
  then show ?case by simp
next
  case (2 x)
  then show ?case by simp
next
  case (3 x y zs)
  have "lex (join (CHR '','' # newline d) (map f (x # y # zs)) @ rest)
          = lex (f x @ CHR '','' # newline d @ join (CHR '','' # newline d) (map f (y # zs)) @ rest)"
    by simp
  also have "\<dots> = pre (g x) (pre [Comma] (pre (join [Comma] (map g (y # zs))) (lex rest)))"
    using 3 by (simp add: lex_punct lex_newline del: join.simps)
  finally show ?case
    by simp
qed

lemma lex_render:
  "no_numbers j \<Longrightarrow> lex (render d j @ rest) = pre (tokens_of (coerce_json j)) (lex rest)"
proof (induction j arbitrary: d rest)
  case JNull
  then show ?case using lex_literals(1) by simp
next
  case (JBool b)
  then show ?case using lex_literals(2,3) by (cases b) simp_all
next
  case (JNumber n)
  then show ?case by simp
next
  case (JString s)
  then show ?case by (simp add: lex_appendString)
next
  case (JArray js)
  show ?case
  proof (cases "js = []")
    case True
    then show ?thesis by (simp add: lex_punct)
  next
    case False
    have el: "lex (render (Suc d) x @ r) = pre (tokens_of (coerce_json x)) (lex r)"
      if "x \<in> set js" for x r
      using JArray.IH [OF that] JArray.prems that by (simp add: list_all_iff)
    have "lex (render d (JArray js) @ rest)
            = pre [LBrack] (lex (join (CHR '','' # newline (Suc d)) (map (render (Suc d)) js)
                                   @ newline d @ CHR '']'' # rest))"
      using False by (simp add: lex_punct lex_newline)
    also have "\<dots> = pre [LBrack] (pre (join [Comma] (map (\<lambda>x. tokens_of (coerce_json x)) js))
                                      (pre [RBrack] (lex rest)))"
      using lex_join [of js "render (Suc d)" "\<lambda>x. tokens_of (coerce_json x)", OF el]
      by (simp add: lex_newline lex_punct)
    finally show ?thesis
      by (simp add: comp_def)
  qed
next
  case (JObject ms)
  show ?case
  proof (cases "ms = []")
    case True
    then show ?thesis by (simp add: lex_punct)
  next
    case False
    have el: "lex ((appendString (fst m) @ '': '' @ render (Suc d) (snd m)) @ r)
                = pre (TString (coerce_utf8 (fst m)) # Colon # tokens_of (coerce_json (snd m))) (lex r)"
      if "m \<in> set ms" for m r
    proof -
      have "snd m \<in> Basic_BNFs.snds m"
        by (cases m) simp
      from JObject.IH [OF that this] JObject.prems that
      have "lex (render (Suc d) (snd m) @ r) = pre (tokens_of (coerce_json (snd m))) (lex r)"
        by (simp add: list_all_iff)
      then show ?thesis
        by (simp add: lex_appendString lex_punct lex_blank)
    qed
    have "lex (render d (JObject ms) @ rest)
            = pre [LBrace] (lex (join (CHR '','' # newline (Suc d))
                                   (map (\<lambda>m. appendString (fst m) @ '': '' @ render (Suc d) (snd m)) ms)
                                   @ newline d @ CHR ''}'' # rest))"
      using False by (simp add: lex_punct lex_newline)
    also have "\<dots> = pre [LBrace]
         (pre (join [Comma] (map (\<lambda>m. TString (coerce_utf8 (fst m)) # Colon # tokens_of (coerce_json (snd m))) ms))
            (pre [RBrace] (lex rest)))"
      using lex_join [of ms "\<lambda>m. appendString (fst m) @ '': '' @ render (Suc d) (snd m)"
          "\<lambda>m. TString (coerce_utf8 (fst m)) # Colon # tokens_of (coerce_json (snd m))", OF el]
      by (simp add: lex_newline lex_punct)
    finally show ?thesis
      by (simp add: comp_def)
  qed
qed

lemma fold_max_ge: "(a::nat) \<le> fold max xs a"
proof (induction xs arbitrary: a)
  case Nil
  then show ?case by simp
next
  case (Cons x xs)
  have "a \<le> max x a" by simp
  also have "\<dots> \<le> fold max xs (max x a)" by (rule Cons.IH)
  finally show ?case by simp
qed

lemma fold_max_mem: "x \<in> set xs \<Longrightarrow> (x::nat) \<le> fold max xs a"
proof (induction xs arbitrary: a)
  case Nil
  then show ?case by simp
next
  case (Cons y ys)
  show ?case
  proof (cases "x = y")
    case True
    have "x \<le> max y a" using True by simp
    also have "\<dots> \<le> fold max ys (max y a)" by (rule fold_max_ge)
    finally show ?thesis by simp
  next
    case False
    with Cons.prems have "x \<in> set ys" by simp
    from Cons.IH [OF this] show ?thesis by simp
  qed
qed

lemma tokens_of_first: "\<exists>t ts. tokens_of j = t # ts \<and> t \<noteq> RBrack"
  by (cases j) simp_all

lemma run_OrEmpty:
  "run BeginValueOrEmpty st (tokens_of j @ ts) = run BeginValue st (tokens_of j @ ts)"
proof -
  obtain t us where "tokens_of j = t # us" "t \<noteq> RBrack"
    using tokens_of_first by blast
  then show ?thesis
    by (simp add: step_def)
qed

lemma run_elements:
  assumes "\<And>x st ts. x \<in> set js \<Longrightarrow> length st + depth x \<le> maxNestingDepth
             \<Longrightarrow> run BeginValue st (tokens_of x @ ts) = run (EndValue x) st ts"
    and "\<And>x. x \<in> set js \<Longrightarrow> Suc (length st) + depth x \<le> maxNestingDepth"
    and "js \<noteq> []"
  shows "run BeginValue (ArrF acc # st) (join [Comma] (map tokens_of js) @ RBrack # ts)
           = run (EndValue (JArray (rev acc @ js))) st ts"
  using assms
proof (induction js arbitrary: acc rule: induct_list012)
  case 1
  then show ?case by simp
next
  case (2 x)
  have "run BeginValue (ArrF acc # st) (tokens_of x @ RBrack # ts)
          = run (EndValue x) (ArrF acc # st) (RBrack # ts)"
    using 2 by simp
  then show ?case
    by (simp add: step_def end_value_def)
next
  case (3 x y zs)
  have "run BeginValue (ArrF acc # st)
          (tokens_of x @ Comma # join [Comma] (map tokens_of (y # zs)) @ RBrack # ts)
        = run (EndValue x) (ArrF acc # st)
            (Comma # join [Comma] (map tokens_of (y # zs)) @ RBrack # ts)"
    using "3.prems"(1) [of x "ArrF acc # st"] "3.prems"(2) [of x] by simp
  also have "\<dots> = run BeginValue (ArrF (x # acc) # st)
                      (join [Comma] (map tokens_of (y # zs)) @ RBrack # ts)"
    by (simp add: step_def end_value_def)
  also have "\<dots> = run (EndValue (JArray (rev (x # acc) @ y # zs))) st ts"
    by (rule "3.IH"(2)) (use "3.prems" in auto)
  finally show ?case
    by simp
qed

lemma run_members:
  assumes "\<And>m st ts. m \<in> set ms \<Longrightarrow> length st + depth (snd m) \<le> maxNestingDepth
             \<Longrightarrow> run BeginValue st (tokens_of (snd m) @ ts) = run (EndValue (snd m)) st ts"
    and "\<And>m. m \<in> set ms \<Longrightarrow> Suc (length st) + depth (snd m) \<le> maxNestingDepth"
    and "ms \<noteq> []"
  shows "run BeginString (ObjF acc # st)
           (join [Comma] (map (\<lambda>m. TString (fst m) # Colon # tokens_of (snd m)) ms) @ RBrace # ts)
           = run (EndValue (JObject (rev acc @ ms))) st ts"
  using assms
proof (induction ms arbitrary: acc rule: induct_list012)
  case 1
  then show ?case by simp
next
  case (2 m)
  have "run BeginString (ObjF acc # st) (TString (fst m) # Colon # tokens_of (snd m) @ RBrace # ts)
          = run BeginValue (ObjV acc (fst m) # st) (tokens_of (snd m) @ RBrace # ts)"
    by (simp add: step_def)
  also have "\<dots> = run (EndValue (snd m)) (ObjV acc (fst m) # st) (RBrace # ts)"
    using 2 by simp
  finally show ?case
    by (simp add: step_def end_value_def)
next
  case (3 m y zs)
  let ?rest = "join [Comma] (map (\<lambda>m. TString (fst m) # Colon # tokens_of (snd m)) (y # zs)) @ RBrace # ts"
  have "run BeginString (ObjF acc # st)
          (TString (fst m) # Colon # tokens_of (snd m) @ Comma # ?rest)
          = run BeginValue (ObjV acc (fst m) # st) (tokens_of (snd m) @ Comma # ?rest)"
    by (simp add: step_def)
  also have "\<dots> = run (EndValue (snd m)) (ObjV acc (fst m) # st) (Comma # ?rest)"
    using "3.prems"(1) [of m "ObjV acc (fst m) # st"] "3.prems"(2) [of m] by simp
  also have "\<dots> = run BeginString (ObjF (m # acc) # st) ?rest"
    by (simp add: step_def end_value_def)
  also have "\<dots> = run (EndValue (JObject (rev (m # acc) @ y # zs))) st ts"
    by (rule "3.IH"(2)) (use "3.prems" in auto)
  finally show ?case
    by simp
qed

lemma run_tokens:
  "length st + depth j \<le> maxNestingDepth
     \<Longrightarrow> run BeginValue st (tokens_of j @ ts) = run (EndValue j) st ts"
proof (induction j arbitrary: st ts)
  case (JArray js)
  have push: "length st < maxNestingDepth"
    using JArray.prems by simp
  show ?case
  proof (cases "js = []")
    case True
    with push show ?thesis
      by (simp add: step_def begin_value_def)
  next
    case False
    then obtain x xs where js: "js = x # xs"
      by (cases js) auto
    have d: "Suc (length st) + depth x \<le> maxNestingDepth" if "x \<in> set js" for x
    proof -
      have "depth x \<le> fold max (map depth js) 0"
        using that by (intro fold_max_mem) simp
      with JArray.prems show ?thesis by simp
    qed
    have "run BeginValue st (tokens_of (JArray js) @ ts)
            = run BeginValueOrEmpty (ArrF [] # st) (join [Comma] (map tokens_of js) @ RBrack # ts)"
      using push by (simp add: step_def begin_value_def)
    also have "\<dots> = run BeginValue (ArrF [] # st) (join [Comma] (map tokens_of js) @ RBrack # ts)"
    proof (cases xs)
      case Nil
      then show ?thesis using run_OrEmpty [of _ x] by (simp add: js)
    next
      case (Cons y ys)
      then show ?thesis using run_OrEmpty [of _ x] by (simp add: js)
    qed
    also have "\<dots> = run (EndValue (JArray (rev [] @ js))) st ts"
      by (rule run_elements) (use JArray.IH d False in auto)
    finally show ?thesis
      by simp
  qed
next
  case (JObject ms)
  have push: "length st < maxNestingDepth"
    using JObject.prems by simp
  show ?case
  proof (cases "ms = []")
    case True
    with push show ?thesis
      by (simp add: step_def begin_value_def)
  next
    case False
    then obtain x xs where ms: "ms = x # xs"
      by (cases ms) auto
    have d: "Suc (length st) + depth (snd m) \<le> maxNestingDepth" if "m \<in> set ms" for m
    proof -
      have "depth (snd m) \<le> fold max (map (\<lambda>m. depth (snd m)) ms) 0"
        using that by (intro fold_max_mem) auto
      with JObject.prems show ?thesis by simp
    qed
    have ih: "run BeginValue st' (tokens_of (snd m) @ ts') = run (EndValue (snd m)) st' ts'"
      if "m \<in> set ms" "length st' + depth (snd m) \<le> maxNestingDepth" for m st' ts'
    proof -
      have "snd m \<in> Basic_BNFs.snds m"
        by (cases m) simp
      from JObject.IH [OF that(1) this that(2)] show ?thesis .
    qed
    let ?mt = "\<lambda>m. TString (fst m) # Colon # tokens_of (snd m)"
    have "run BeginValue st (tokens_of (JObject ms) @ ts)
            = run BeginStringOrEmpty (ObjF [] # st) (join [Comma] (map ?mt ms) @ RBrace # ts)"
      using push by (simp add: step_def begin_value_def)
    also have "\<dots> = run BeginString (ObjF [] # st) (join [Comma] (map ?mt ms) @ RBrace # ts)"
      by (cases xs) (simp_all add: ms step_def)
    also have "\<dots> = run (EndValue (JObject (rev [] @ ms))) st ts"
      by (rule run_members) (use ih d False in auto)
    finally show ?thesis
      by simp
  qed
qed (simp_all add: step_def begin_value_def)

lemma depth_coerce_json [simp]: "depth (coerce_json j) = depth j"
proof (induction j)
  case (JArray js)
  then have e: "map (\<lambda>x. depth (coerce_json x)) js = map depth js"
    by simp
  show ?case
    by (simp add: comp_def e)
next
  case (JObject ms)
  have "depth (coerce_json (snd m)) = depth (snd m)" if "m \<in> set ms" for m
    using JObject [OF that, of "snd m"] by (cases m) simp
  then have e: "map (\<lambda>m. depth (coerce_json (snd m))) ms = map (\<lambda>m. depth (snd m)) ms"
    by simp
  show ?case
    by (simp add: comp_def e)
qed simp_all

lemma parse_json_render:
  assumes "no_numbers j" "depth j \<le> maxNestingDepth"
  shows "parse_json (render d j) = Some (coerce_json j)"
proof -
  have "lex (render d j @ []) = pre (tokens_of (coerce_json j)) (lex [])"
    using assms(1) by (rule lex_render)
  then have l: "lex (render d j) = Some (tokens_of (coerce_json j))"
    by simp
  have "run BeginValue [] (tokens_of (coerce_json j) @ []) = run (EndValue (coerce_json j)) [] []"
    by (rule run_tokens) (use assms(2) in simp)
  then show ?thesis
    by (simp add: parse_json_def l)
qed

lemma coerce_utf8_ascii: "\<forall>c \<in> set s. byte c < 0x80 \<Longrightarrow> coerce_utf8 s = s"
  by (induction s) (simp_all add: EncodeRune_ascii)

lemma coerce_field_names [simp]:
  "coerce_utf8 ''directory'' = ''directory''" "coerce_utf8 ''command'' = ''command''"
  "coerce_utf8 ''arguments'' = ''arguments''" "coerce_utf8 ''file'' = ''file''"
  by (rule coerce_utf8_ascii, simp add: byte_def)+

declare coerce_utf8.simps(2) [simp del]

lemma find_field_names [simp]:
  "find_field ''directory'' = Some FDirectory" "find_field ''command'' = Some FCommand"
  "find_field ''arguments'' = Some FArguments" "find_field ''file'' = Some FFile"
  by (simp_all add: find_field_def field_name_def)

lemma decode_strings_JString:
  "decode_strings (map (\<lambda>s. JString (f s)) xs) old = (map f xs, None)"
  by (induction xs arbitrary: old) (simp_all add: decode_string_def saveError_def)

lemma json_of_Command_no_numbers: "no_numbers (json_of_Command c)"
  by (simp add: json_of_Command_def list_all_iff)

lemma json_of_Contents_no_numbers: "no_numbers (json_of_Contents v)"
  by (cases v) (simp_all add: list_all_iff json_of_Command_no_numbers)

lemma fold_max_le: "(\<forall>x \<in> set xs. (x::nat) \<le> b) \<Longrightarrow> a \<le> b \<Longrightarrow> fold max xs a \<le> b"
  by (induction xs arbitrary: a) simp_all

lemma depth_JStrings: "fold max (map (depth \<circ> JString) xs) 0 = 0"
  by (induction xs) simp_all

lemma depth_json_of_Command: "depth (json_of_Command c) \<le> 2"
  by (simp add: json_of_Command_def depth_JStrings)

lemma depth_json_of_Contents: "depth (json_of_Contents v) \<le> 3"
proof (cases v)
  case NilSlice
  then show ?thesis by simp
next
  case (Slice cs)
  have "fold max (map depth (map json_of_Command cs)) 0 \<le> 2"
    by (rule fold_max_le) (use depth_json_of_Command in auto)
  then show ?thesis
    using Slice by simp
qed

lemma decode_Command_json_of_Command:
  "decode_Command (coerce_json (json_of_Command c)) = (coerce_Command c, None)"
proof -
  have a: "decode_Arguments (JArray (map (\<lambda>s. JString (coerce_utf8 s)) xs)) (NilSlice, [])
             = ((Slice (map coerce_utf8 xs), []), None)" if "xs \<noteq> []" for xs
    using that by (simp add: decode_Arguments_def decode_strings_JString)
  show ?thesis
    by (simp add: json_of_Command_def decode_Command_def decode_member_def decode_string_def
        zero_Command_def saveError_def coerce_Command_def a comp_def len_def)
qed

lemma decode_Commands_json_of_Command:
  "decode_Commands (map (\<lambda>c. coerce_json (json_of_Command c)) cs) = (map coerce_Command cs, None)"
  by (induction cs) (simp_all add: decode_Command_json_of_Command saveError_def)

lemma parse_json_render_Contents:
  "parse_json (render 0 (json_of_Contents v)) = Some (coerce_json (json_of_Contents v))"
  by (rule parse_json_render)
     (use json_of_Contents_no_numbers depth_json_of_Contents [of v] in
       \<open>simp_all add: maxNestingDepth_def\<close>)

lemma Unmarshal_MarshalIndent:
  "\<exists>data. MarshalIndent v = Inr data \<and> Unmarshal data cur = (coerce_Contents v, None)"
proof -
  have "decode_Contents (coerce_json (json_of_Contents v)) cur = (coerce_Contents v, None)"
    by (cases v) (simp_all add: decode_Contents_def comp_def decode_Commands_json_of_Command)
  then show ?thesis
    by (simp add: MarshalIndent_def Unmarshal_def parse_json_render_Contents del: render.simps)
qed

lemma div_mod_digit:
  fixes q d x :: nat
  assumes "x < d"
  shows "(q * d + x) div d = q" "(q * d + x) mod d = x"
  using assms by simp_all

lemma enc2:
  fixes s0 s1 :: nat
  assumes "0xC2 \<le> s0" "s0 < 0xE0" "0x80 \<le> s1" "s1 \<le> 0xBF"
  shows "EncodeRune (s0 mod 32 * 64 + s1 mod 64) = [char_of s0, char_of s1]"
proof -
  define x0 x1 where "x0 = s0 - 0xC0" and "x1 = s1 - 0x80"
  have x: "s0 = 6 * 32 + x0" "s1 = 2 * 64 + x1"
    using assms by (simp_all add: x0_def x1_def)
  have b: "2 \<le> x0" "x0 < 32" "x1 < 64"
    using assms by (simp_all add: x0_def x1_def)
  have m: "s0 mod 32 = x0" "s1 mod 64 = x1"
    unfolding x using b by (simp_all only: div_mod_digit)
  define r where "r = x0 * 64 + x1"
  have d: "r div 64 = x0" "r mod 64 = x1"
    unfolding r_def using b by (simp_all only: div_mod_digit)
  have r: "0x7F < r" "r \<le> 0x7FF"
    unfolding r_def using b by simp_all
  have e: "0xC0 + r div 64 = s0" "0x80 + r mod 64 = s1"
    unfolding d x by simp_all
  have "EncodeRune r = [char_of (0xC0 + r div 64), char_of (0x80 + r mod 64)]"
    unfolding EncodeRune_def using r by simp
  then have "EncodeRune r = [char_of s0, char_of s1]"
    by (simp only: e)
  then show ?thesis
    by (simp only: m r_def)
qed

lemma enc3:
  fixes s0 s1 s2 :: nat
  assumes "0xE0 \<le> s0" "s0 < 0xF0" "0x80 \<le> s1" "s1 \<le> 0xBF" "0x80 \<le> s2" "s2 \<le> 0xBF"
    "s0 = 0xE0 \<longrightarrow> 0xA0 \<le> s1" "s0 = 0xED \<longrightarrow> s1 \<le> 0x9F"
  shows "EncodeRune (s0 mod 16 * 4096 + s1 mod 64 * 64 + s2 mod 64)
           = [char_of s0, char_of s1, char_of s2]"
proof -
  define x0 x1 x2 where "x0 = s0 - 0xE0" and "x1 = s1 - 0x80" and "x2 = s2 - 0x80"
  have x: "s0 = 14 * 16 + x0" "s1 = 2 * 64 + x1" "s2 = 2 * 64 + x2"
    using assms by (simp_all add: x0_def x1_def x2_def)
  have b: "x0 < 16" "x1 < 64" "x2 < 64" "x0 = 0 \<longrightarrow> 32 \<le> x1" "x0 = 13 \<longrightarrow> x1 < 32"
    using assms by (auto simp: x0_def x1_def x2_def)
  have m: "s0 mod 16 = x0" "s1 mod 64 = x1" "s2 mod 64 = x2"
    unfolding x using b by (simp_all only: div_mod_digit)
  define r where "r = x0 * 4096 + x1 * 64 + x2"
  have r64: "r = (x0 * 64 + x1) * 64 + x2" and r4096: "r = x0 * 4096 + (x1 * 64 + x2)"
    by (simp_all add: r_def)
  have lt: "x1 * 64 + x2 < 4096"
    using b by simp
  have d: "r div 4096 = x0" "r mod 64 = x2" "r div 64 = x0 * 64 + x1"
    using div_mod_digit(1) [OF lt, of x0] div_mod_digit [OF b(3), of "x0 * 64 + x1"]
    by (simp_all only: r64 [symmetric] r4096 [symmetric])
  have d': "(r div 64) mod 64 = x1"
    unfolding d using b by (simp only: div_mod_digit)
  have low: "0x7FF < r"
    using b unfolding r_def by (cases "x0 = 0") simp_all
  have high: "r \<le> 0xFFFF"
    using b unfolding r_def by simp
  have sur: "\<not> (0xD800 \<le> r \<and> r \<le> 0xDFFF)"
  proof (cases "x0 = 13")
    case True
    with b show ?thesis unfolding r_def by simp
  next
    case False
    then have "x0 \<le> 12 \<or> 14 \<le> x0" by arith
    with b show ?thesis unfolding r_def by auto
  qed
  have e: "0xE0 + r div 4096 = s0" "0x80 + (r div 64) mod 64 = s1" "0x80 + r mod 64 = s2"
    unfolding d' d(1,2) x by simp_all
  have "EncodeRune r = [char_of (0xE0 + r div 4096), char_of (0x80 + (r div 64) mod 64),
                       char_of (0x80 + r mod 64)]"
    unfolding EncodeRune_def using low high sur by auto
  then have "EncodeRune r = [char_of s0, char_of s1, char_of s2]"
    by (simp only: e)
  then show ?thesis
    by (simp only: m r_def)
qed

lemma enc4:
  fixes s0 s1 s2 s3 :: nat
  assumes "0xF0 \<le> s0" "s0 \<le> 0xF4" "0x80 \<le> s1" "s1 \<le> 0xBF" "0x80 \<le> s2" "s2 \<le> 0xBF"
    "0x80 \<le> s3" "s3 \<le> 0xBF"
    "s0 = 0xF0 \<longrightarrow> 0x90 \<le> s1" "s0 = 0xF4 \<longrightarrow> s1 \<le> 0x8F"
  shows "EncodeRune (s0 mod 8 * 262144 + s1 mod 64 * 4096 + s2 mod 64 * 64 + s3 mod 64)
           = [char_of s0, char_of s1, char_of s2, char_of s3]"
proof -
  define x0 x1 x2 x3 where "x0 = s0 - 0xF0" and "x1 = s1 - 0x80" and "x2 = s2 - 0x80"
    and "x3 = s3 - 0x80"
  have x: "s0 = 30 * 8 + x0" "s1 = 2 * 64 + x1" "s2 = 2 * 64 + x2" "s3 = 2 * 64 + x3"
    using assms by (simp_all add: x0_def x1_def x2_def x3_def)
  have b: "x0 < 8" "x0 \<le> 4" "x1 < 64" "x2 < 64" "x3 < 64" "x0 = 0 \<longrightarrow> 16 \<le> x1"
    "x0 = 4 \<longrightarrow> x1 < 16"
    using assms by (auto simp: x0_def x1_def x2_def x3_def)
  have m: "s0 mod 8 = x0" "s1 mod 64 = x1" "s2 mod 64 = x2" "s3 mod 64 = x3"
    unfolding x using b by (simp_all only: div_mod_digit)
  define r where "r = x0 * 262144 + x1 * 4096 + x2 * 64 + x3"
  have r64: "r = (x0 * 4096 + x1 * 64 + x2) * 64 + x3"
    and r4096: "r = (x0 * 64 + x1) * 4096 + (x2 * 64 + x3)"
    and r262144: "r = x0 * 262144 + (x1 * 4096 + x2 * 64 + x3)"
    by (simp_all add: r_def)
  have lt: "x2 * 64 + x3 < 4096" "x1 * 4096 + x2 * 64 + x3 < 262144"
    using b by simp_all
  have d: "r div 262144 = x0" "r mod 64 = x3" "r div 64 = (x0 * 64 + x1) * 64 + x2"
    "r div 4096 = x0 * 64 + x1"
    using div_mod_digit(1) [OF lt(2), of x0] div_mod_digit [OF b(5), of "x0 * 4096 + x1 * 64 + x2"]
      div_mod_digit(1) [OF lt(1), of "x0 * 64 + x1"]
    by (simp_all only: r64 [symmetric] r4096 [symmetric] r262144 [symmetric]) simp
  have d': "(r div 64) mod 64 = x2" "(r div 4096) mod 64 = x1"
    unfolding d using b by (simp_all only: div_mod_digit)
  have low: "0xFFFF < r"
    using b unfolding r_def by (cases "x0 = 0") simp_all
  have high: "r \<le> 0x10FFFF"
  proof (cases "x0 = 4")
    case True
    with b show ?thesis unfolding r_def by simp
  next
    case False
    with b have "x0 \<le> 3" by simp
    with b show ?thesis unfolding r_def by simp
  qed
  have e: "0xF0 + r div 262144 = s0" "0x80 + (r div 4096) mod 64 = s1"
    "0x80 + (r div 64) mod 64 = s2" "0x80 + r mod 64 = s3"
    unfolding d' d(1,2) x by simp_all
  have "EncodeRune r = [char_of (0xF0 + r div 262144), char_of (0x80 + (r div 4096) mod 64),
                       char_of (0x80 + (r div 64) mod 64), char_of (0x80 + r mod 64)]"
    unfolding EncodeRune_def using low high by auto
  then have "EncodeRune r = [char_of s0, char_of s1, char_of s2, char_of s3]"
    by (simp only: e)
  then show ?thesis
    by (simp only: m r_def)
qed

lemma enc3_chars:
  assumes "byte a = s0" "0xE0 \<le> s0" "s0 < 0xF0" "0x80 \<le> byte b" "byte b \<le> 0xBF"
    "0x80 \<le> byte c" "byte c \<le> 0xBF" "s0 = 0xE0 \<longrightarrow> 0xA0 \<le> byte b"
    "s0 = 0xED \<longrightarrow> byte b \<le> 0x9F"
  shows "EncodeRune (s0 mod 16 * 4096 + byte b mod 64 * 64 + byte c mod 64) = [a, b, c]"
  using enc3 [of s0 "byte b" "byte c"] assms by auto

lemma enc4_chars:
  assumes "byte a = s0" "0xF0 \<le> s0" "s0 \<le> 0xF4" "0x80 \<le> byte b" "byte b \<le> 0xBF"
    "0x80 \<le> byte c" "byte c \<le> 0xBF" "0x80 \<le> byte d" "byte d \<le> 0xBF"
    "s0 = 0xF0 \<longrightarrow> 0x90 \<le> byte b" "s0 = 0xF4 \<longrightarrow> byte b \<le> 0x8F"
  shows "EncodeRune (s0 mod 8 * 262144 + byte b mod 64 * 4096 + byte c mod 64 * 64 + byte d mod 64)
           = [a, b, c, d]"
  using enc4 [of s0 "byte b" "byte c" "byte d"] assms by auto

lemmas enc_first_bytes =
  enc3_chars [where ?s0.0 = "0xE0", simplified] enc3_chars [where ?s0.0 = "0xED", simplified]
  enc4_chars [where ?s0.0 = "0xF0", simplified] enc4_chars [where ?s0.0 = "0xF4", simplified]

lemma EncodeRune_DecodeRune:
  assumes "DecodeRune s = (r, n)" "\<not> (r = RuneError \<and> n = 1)" "s \<noteq> []"
  shows "EncodeRune r = take n s"
  using assms
  by (cases s rule: list4_cases)
     (auto simp: DecodeRune.simps Let_def RuneError_def EncodeRune_ascii enc2 enc3 enc4 not_less
       split: if_splits intro!: enc_first_bytes)

lemma coerce_utf8_valid: "ValidString s \<Longrightarrow> coerce_utf8 s = s"
proof (induction "length s" arbitrary: s rule: less_induct)
  case less
  show ?case
  proof (cases s)
    case Nil
    then show ?thesis by simp
  next
    case (Cons c cs)
    obtain r n where d: "DecodeRune (c # cs) = (r, n)"
      by (cases "DecodeRune (c # cs)")
    with less.prems Cons have v: "\<not> (r = RuneError \<and> n = 1)" "ValidString (drop (n - 1) cs)"
      by (simp_all del: DecodeRune.simps)
    have n: "1 \<le> n" "n \<le> Suc (length cs)"
      using DecodeRune_size [OF d] by simp_all
    have "coerce_utf8 (drop (n - 1) cs) = drop (n - 1) cs"
      by (rule less.hyps) (use v Cons in simp_all)
    moreover have "EncodeRune r = c # take (n - 1) cs"
      using EncodeRune_DecodeRune [OF d v(1)] n by (cases n) simp_all
    ultimately show ?thesis
      using d by (simp add: Cons coerce_utf8.simps del: DecodeRune.simps)
  qed
qed

subsection \<open>\<open>SaveToFile\<close> followed by \<open>LoadDatabase\<close>\<close>

lemma LoadDatabase_effect:
  "LoadDatabase (Some p) w =
     (case ReadFile p w of
        Inl e \<Rightarrow> Returns ((None, Some (OSError e)), w)
      | Inr data \<Rightarrow>
          Returns ((Some (length (heap w)), snd (Unmarshal data (Slice []))),
                   w\<lparr>heap := heap w @ [\<lparr>Contents = fst (Unmarshal data (Slice [])),
                                         File = Some p\<rparr>]\<rparr>))"
  by (cases "ReadFile p w")
     (simp_all add: LoadDatabase_def NewDatabase_eq deref_def store_def split: prod.splits)

lemma coerce_Command_valid: "valid_Command c \<Longrightarrow> coerce_Command c = read_back c"
proof -
  assume v: "valid_Command c"
  then have "map coerce_utf8 (elems (Arguments c)) = elems (Arguments c)"
    by (simp add: valid_Command_def list_all_iff coerce_utf8_valid map_idI)
  moreover have "Slice (elems a) = a" if "len a \<noteq> 0" for a :: "string slice"
    using that by (cases a) (simp_all add: len_def)
  ultimately show ?thesis
    using v by (simp add: coerce_Command_def read_back_def valid_Command_def coerce_utf8_valid)
qed

lemma coerce_Contents_valid:
  assumes "list_all valid_Command (elems v)"
  shows "elems (coerce_Contents v) = map read_back (elems v)"
    and "coerce_Contents v = NilSlice \<longleftrightarrow> v = NilSlice"
  using assms by (cases v; simp add: list_all_iff coerce_Command_valid)+

lemma Save_then_Load:
  assumes "deref w db = Some d" "Database.File d = Some p" "fault w p = NoFault"
  shows "\<exists>w1. SaveToFile db w = Returns w1
           \<and> files w1 p = Some (render 0 (json_of_Contents (Contents d)))
           \<and> LoadDatabase (Some p) w1 =
               Returns ((Some (length (heap w)), None),
                        w1\<lparr>heap := heap w @ [\<lparr>Contents = coerce_Contents (Contents d),
                                               File = Some p\<rparr>]\<rparr>)"
proof -
  from SaveToFile_effect [OF assms(1,2)] obtain w1 where
    w1: "SaveToFile db w = Returns w1"
    "files w1 = files (snd (WriteFile p (render 0 (json_of_Contents (Contents d))) w))"
    "heap w1 = heap w" "fault w1 = fault w"
    by blast
  have f: "files w1 p = Some (render 0 (json_of_Contents (Contents d)))"
    using assms(3) by (simp add: w1(2) WriteFile_files)
  then have r: "ReadFile p w1 = Inr (render 0 (json_of_Contents (Contents d)))"
    using assms(3) by (simp add: ReadFile_def w1(4))
  from Unmarshal_MarshalIndent [of "Contents d" "Slice []"]
  have u: "Unmarshal (render 0 (json_of_Contents (Contents d))) (Slice [])
             = (coerce_Contents (Contents d), None)"
    by (simp add: MarshalIndent_def)
  show ?thesis
    using w1(1) f by (simp add: LoadDatabase_effect r u w1(3))
qed

text \<open>
  C1: the claim is that saving and loading gives back entries with identical field values.
  \<open>json.Marshal\<close> replaces every byte of a string that is not part of a UTF-8 encoding by
  U+FFFD: an entry with exactly the argument vector populated whose file name holds the
  byte \<open>0xE9\<close> (an e with acute accent in Latin-1) is written with the escape of U+FFFD in its place, both operations
  succeed, and the entry read back holds another file name.
\<close>

theorem round_trip_invalid_UTF8_counterexample:
  "SaveToFile 0
     (quiet_world\<lparr>heap := [\<lparr>Contents = Slice [\<lparr>Directory = ''/src'', Command = [],
                                 Arguments = Slice [''gcc''],
                                 File = [CHR ''a'', CHR 0xE9, CHR ''.'', CHR ''c'']\<rparr>],
                            File = Some ''cc.json''\<rparr>]\<rparr>)
   = Returns
     (quiet_world
        \<lparr>files := (every_path None)
            (''cc.json'' \<mapsto> render 0 (json_of_Contents (Slice [\<lparr>Directory = ''/src'',
                 Command = [], Arguments = Slice [''gcc''],
                 File = [CHR ''a'', CHR 0xE9, CHR ''.'', CHR ''c'']\<rparr>]))),
         heap := [\<lparr>Contents = Slice [\<lparr>Directory = ''/src'', Command = [],
                                 Arguments = Slice [''gcc''],
                                 File = [CHR ''a'', CHR 0xE9, CHR ''.'', CHR ''c'']\<rparr>],
                            File = Some ''cc.json''\<rparr>]\<rparr>)
   \<and> LoadDatabase (Some ''cc.json'')
     (quiet_world
        \<lparr>files := (every_path None)
            (''cc.json'' \<mapsto> render 0 (json_of_Contents (Slice [\<lparr>Directory = ''/src'',
                 Command = [], Arguments = Slice [''gcc''],
                 File = [CHR ''a'', CHR 0xE9, CHR ''.'', CHR ''c'']\<rparr>]))),
         heap := [\<lparr>Contents = Slice [\<lparr>Directory = ''/src'', Command = [],
                                 Arguments = Slice [''gcc''],
                                 File = [CHR ''a'', CHR 0xE9, CHR ''.'', CHR ''c'']\<rparr>],
                            File = Some ''cc.json''\<rparr>]\<rparr>)
   = Returns ((Some 1, None),
     quiet_world
        \<lparr>files := (every_path None)
            (''cc.json'' \<mapsto> render 0 (json_of_Contents (Slice [\<lparr>Directory = ''/src'',
                 Command = [], Arguments = Slice [''gcc''],
                 File = [CHR ''a'', CHR 0xE9, CHR ''.'', CHR ''c'']\<rparr>]))),
         heap := [\<lparr>Contents = Slice [\<lparr>Directory = ''/src'', Command = [],
                                 Arguments = Slice [''gcc''],
                                 File = [CHR ''a'', CHR 0xE9, CHR ''.'', CHR ''c'']\<rparr>],
                            File = Some ''cc.json''\<rparr>,
                  \<lparr>Contents = Slice [\<lparr>Directory = ''/src'', Command = [],
                                 Arguments = Slice [''gcc''],
                                 File = [CHR ''a'', CHR 0xEF, CHR 0xBF, CHR 0xBD, CHR ''.'', CHR ''c'']\<rparr>],
                            File = Some ''cc.json''\<rparr>]\<rparr>)
   \<and> exactly_one_populated \<lparr>Directory = ''/src'', Command = [], Arguments = Slice [''gcc''],
                             File = [CHR ''a'', CHR 0xE9, CHR ''.'', CHR ''c'']\<rparr>"
proof -
  let ?e = "\<lparr>Directory = ''/src'', Command = [], Arguments = Slice [''gcc''],
             File = [CHR ''a'', CHR 0xE9, CHR ''.'', CHR ''c'']\<rparr>"
  let ?w = "quiet_world\<lparr>heap := [\<lparr>Contents = Slice [?e], File = Some ''cc.json''\<rparr>]\<rparr>"
  have d: "deref ?w 0 = Some \<lparr>Contents = Slice [?e], File = Some ''cc.json''\<rparr>"
    by (simp add: deref_def)
  have f: "fault ?w ''cc.json'' = NoFault"
    by (simp add: quiet_world_def every_path_def)
  have a: "coerce_utf8 ''/src'' = ''/src''" "coerce_utf8 ''gcc'' = ''gcc''" "coerce_utf8 [] = []"
    by (simp_all add: coerce_utf8_ascii byte_def)
  have b: "coerce_utf8 [CHR ''a'', CHR 0xE9, CHR ''.'', CHR ''c'']
             = [CHR ''a'', CHR 0xEF, CHR 0xBF, CHR 0xBD, CHR ''.'', CHR ''c'']"
    by (simp add: coerce_utf8.simps DecodeRune.simps byte_def EncodeRune_def RuneError_def
        char_of_eq_iff)
  have c: "coerce_Contents (Slice [?e])
             = Slice [\<lparr>Directory = ''/src'', Command = [], Arguments = Slice [''gcc''],
                      File = [CHR ''a'', CHR 0xEF, CHR 0xBF, CHR 0xBD, CHR ''.'', CHR ''c'']\<rparr>]"
    by (simp add: coerce_Command_def a b len_def)
  from Save_then_Load [OF d _ f] obtain w1 where
    w1: "SaveToFile 0 ?w = Returns w1"
    "LoadDatabase (Some ''cc.json'') w1 =
       Returns ((Some (length (heap ?w)), None),
                w1\<lparr>heap := heap ?w @ [\<lparr>Contents = coerce_Contents (Slice [?e]),
                                          File = Some ''cc.json''\<rparr>]\<rparr>)"
    by auto
  have s: "SaveToFile 0 ?w = Returns (?w\<lparr>files := (every_path None)
            (''cc.json'' \<mapsto> render 0 (json_of_Contents (Slice [?e])))\<rparr>)"
    by (simp add: SaveToFile_def deref_def MarshalIndent_def WriteFile_def quiet_world_def
        every_path_def del: render.simps json_of_Contents.simps)
  with w1(1) have "w1 = ?w\<lparr>files := (every_path None)
            (''cc.json'' \<mapsto> render 0 (json_of_Contents (Slice [?e])))\<rparr>"
    by simp
  with w1(2) s c show ?thesis
    by (simp add: exactly_one_populated_def len_def quiet_world_def
        del: render.simps json_of_Contents.simps)
qed

text \<open>
  C1, as the code has it: for a database that is not \<open>nil\<close>, bound to a path that is not
  \<open>nil\<close> and on which no operation fails, whose entries hold valid UTF-8 strings only,
  \<open>SaveToFile\<close> and then \<open>LoadDatabase\<close> on the path return normally and without error; the
  database loaded is a new one bound to the same path, the saved one is unchanged, and the
  loaded entries are as many as the saved ones, in the same order and with the same
  directory, command, arguments and file, save that an argument vector of length 0 is read
  back as \<open>nil\<close> (\<open>read_back\<close>). This holds whether the entries have exactly one
  representation populated or not.
\<close>

theorem Save_then_Load_round_trip:
  assumes "deref w db = Some d" "Database.File d = Some p" "fault w p = NoFault"
    "list_all valid_Command (elems (Contents d))"
  shows "\<exists>w1 w2 db' d'.
           SaveToFile db w = Returns w1
         \<and> LoadDatabase (Some p) w1 = Returns ((Some db', None), w2)
         \<and> deref w2 db' = Some d' \<and> deref w2 db = Some d
         \<and> Database.File d' = Some p
         \<and> len (Contents d') = len (Contents d)
         \<and> elems (Contents d') = map read_back (elems (Contents d))
         \<and> map Directory (elems (Contents d')) = map Directory (elems (Contents d))
         \<and> map Command (elems (Contents d')) = map Command (elems (Contents d))
         \<and> map (\<lambda>c. elems (Arguments c)) (elems (Contents d'))
             = map (\<lambda>c. elems (Arguments c)) (elems (Contents d))
         \<and> map Command.File (elems (Contents d')) = map Command.File (elems (Contents d))
         \<and> (Contents d' = NilSlice \<longleftrightarrow> Contents d = NilSlice)"
proof -
  from Save_then_Load [OF assms(1-3)] obtain w1 where
    w1: "SaveToFile db w = Returns w1"
    "LoadDatabase (Some p) w1 =
       Returns ((Some (length (heap w)), None),
                w1\<lparr>heap := heap w @ [\<lparr>Contents = coerce_Contents (Contents d),
                                       File = Some p\<rparr>]\<rparr>)"
    by blast
  let ?d' = "\<lparr>Contents = coerce_Contents (Contents d), File = Some p\<rparr>"
  let ?w2 = "w1\<lparr>heap := heap w @ [?d']\<rparr>"
  have db: "db < length (heap w)" "heap w ! db = d"
    using assms(1) by (simp_all add: deref_def split: if_splits)
  have 1: "deref ?w2 (length (heap w)) = Some ?d'"
    by (simp add: deref_def)
  have 2: "deref ?w2 db = Some d"
    using db by (simp add: deref_def nth_append)
  have e: "elems (coerce_Contents (Contents d)) = map read_back (elems (Contents d))"
    and n: "coerce_Contents (Contents d) = NilSlice \<longleftrightarrow> Contents d = NilSlice"
    using coerce_Contents_valid [OF assms(4)] by simp_all
  have f: "Directory (read_back c) = Directory c" "Command (read_back c) = Command c"
    "Command.File (read_back c) = Command.File c"
    "elems (Arguments (read_back c)) = elems (Arguments c)" for c
    by (simp_all add: read_back_def len_def)
  have "SaveToFile db w = Returns w1
         \<and> LoadDatabase (Some p) w1 = Returns ((Some (length (heap w)), None), ?w2)
         \<and> deref ?w2 (length (heap w)) = Some ?d' \<and> deref ?w2 db = Some d
         \<and> Database.File ?d' = Some p
         \<and> len (Contents ?d') = len (Contents d)
         \<and> elems (Contents ?d') = map read_back (elems (Contents d))
         \<and> map Directory (elems (Contents ?d')) = map Directory (elems (Contents d))
         \<and> map Command (elems (Contents ?d')) = map Command (elems (Contents d))
         \<and> map (\<lambda>c. elems (Arguments c)) (elems (Contents ?d'))
             = map (\<lambda>c. elems (Arguments c)) (elems (Contents d))
         \<and> map Command.File (elems (Contents ?d')) = map Command.File (elems (Contents d))
         \<and> (Contents ?d' = NilSlice \<longleftrightarrow> Contents d = NilSlice)"
    using w1 1 2 n by (simp add: e f len_def)
  then show ?thesis
    by blast
qed

theorem Save_then_Load_round_trip_witness:
  "deref (quiet_world\<lparr>heap := [\<lparr>Contents = Slice [\<lparr>Directory = ''/src'', Command = [],
                                     Arguments = Slice [''gcc'', ''a.c''], File = ''a.c''\<rparr>],
                                File = Some ''cc.json''\<rparr>]\<rparr>) 0
     = Some \<lparr>Contents = Slice [\<lparr>Directory = ''/src'', Command = [],
                                Arguments = Slice [''gcc'', ''a.c''], File = ''a.c''\<rparr>],
             File = Some ''cc.json''\<rparr>
   \<and> valid_Command \<lparr>Directory = ''/src'', Command = [],
                     Arguments = Slice [''gcc'', ''a.c''], File = ''a.c''\<rparr>
   \<and> (\<exists>w1 w2 db' d'.
         SaveToFile 0 (quiet_world\<lparr>heap := [\<lparr>Contents = Slice [\<lparr>Directory = ''/src'',
                          Command = [], Arguments = Slice [''gcc'', ''a.c''], File = ''a.c''\<rparr>],
                          File = Some ''cc.json''\<rparr>]\<rparr>) = Returns w1
       \<and> LoadDatabase (Some ''cc.json'') w1 = Returns ((Some db', None), w2)
       \<and> deref w2 db' = Some d'
       \<and> elems (Contents d') = [\<lparr>Directory = ''/src'', Command = [],
                                  Arguments = Slice [''gcc'', ''a.c''], File = ''a.c''\<rparr>])"
proof -
  let ?e = "\<lparr>Directory = ''/src'', Command = [], Arguments = Slice [''gcc'', ''a.c''],
             File = ''a.c''\<rparr>"
  let ?w = "quiet_world\<lparr>heap := [\<lparr>Contents = Slice [?e], File = Some ''cc.json''\<rparr>]\<rparr>"
  have d: "deref ?w 0 = Some \<lparr>Contents = Slice [?e], File = Some ''cc.json''\<rparr>"
    by (simp add: deref_def)
  have f: "fault ?w ''cc.json'' = NoFault"
    by (simp add: quiet_world_def every_path_def)
  have v: "valid_Command ?e"
    by (simp add: valid_Command_def DecodeRune.simps byte_def RuneError_def)
  have r: "read_back ?e = ?e"
    by (simp add: read_back_def len_def)
  from Save_then_Load_round_trip [OF d _ f] v r show ?thesis
    using d by auto
qed

subsection \<open>The file that \<open>SaveToFile\<close> writes\<close>









subsection \<open>The errors of \<open>LoadDatabase\<close>\<close>

lemma saveError_None [simp]: "saveError a b = None \<longleftrightarrow> a = None \<and> b = None"
  by (cases a) (simp_all add: saveError_def)























subsection \<open>Entries with exactly one representation of the command line\<close>








section \<open>Properties of \<open>compile.go\<close>\<close>

text \<open>
  C10: the claim is that \<open>pathVariants[len(pathVariants)-1]\<close> is always within bounds once
  \<open>preferences.txt\<close> has been loaded. A preferences file with no key
  \<open>last.ide.<version>.hardwarepath\<close> is loaded as well, \<open>pathVariants\<close> is then empty, the
  index is \<open>-1\<close> and \<open>run\<close> panics.
\<close>

theorem ideHardwarePath_panics_without_hardwarepath:
  "ideHardwarePath [(''sketchbook.path'', ''/home/user/Arduino'')] = Panics"
  by (simp add: ideHardwarePath_def SubTree_def slice_index_def)

end
